theory Spec2Isabelle
  imports Complex_Main "HOL-Library.Multiset"
begin

section \<open>Python values, errors and containers\<close>

text \<open>
  The simulation of \<^verbatim>\<open>simulation.py\<close> computes with Python floats. They are modelled
  as exact rationals (\<^typ>\<open>rat\<close>): rounding is not modelled. Python ints (levels,
  tick counts) are \<^typ>\<open>int\<close>. Every exception the code can raise is a value
  \<open>Inl e\<close> of the result type.
\<close>

datatype py_error = KeyError | IndexError | ZeroDivisionError | ValueError | TypeError

type_synonym 'a result = "py_error + 'a"

definition rbind :: "'a result \<Rightarrow> ('a \<Rightarrow> 'b result) \<Rightarrow> 'b result" where
  "rbind m f = (case m of Inl e \<Rightarrow> Inl e | Inr x \<Rightarrow> f x)"

text \<open>\<^verbatim>\<open>d[k]\<close> on a dict: KeyError when the key is missing.\<close>

definition lookup :: "('k \<rightharpoonup> 'v) \<Rightarrow> 'k \<Rightarrow> 'v result" where
  "lookup m k = (case m k of None \<Rightarrow> Inl KeyError | Some v \<Rightarrow> Inr v)"

text \<open>\<^verbatim>\<open>xs[i]\<close> on a list: a negative index counts from the end, IndexError out of range.\<close>

definition py_nth :: "'a list \<Rightarrow> int \<Rightarrow> 'a result" where
  "py_nth xs i =
     (if 0 \<le> i \<and> i < int (length xs) then Inr (xs ! nat i)
      else if i < 0 \<and> - int (length xs) \<le> i then Inr (xs ! nat (int (length xs) + i))
      else Inl IndexError)"

text \<open>\<^verbatim>\<open>int(x)\<close> on a float truncates towards zero.\<close>

definition py_int :: "rat \<Rightarrow> int" where
  "py_int x = (if 0 \<le> x then \<lfloor>x\<rfloor> else \<lceil>x\<rceil>)"

section \<open>Configuration (config.py)\<close>

text \<open>A cost is a dict from resource id to amount, kept in insertion order.\<close>

type_synonym cost = "(string \<times> rat) list"

record creature =
  c_id :: string
  c_name :: string
  c_unlockedByDefault :: bool
  c_produces :: string
  c_spawnTime :: rat
  c_maxLevel :: int
  c_productionByLevel :: "rat list"
  c_damageByLevel :: "rat list"
  c_unlockCost :: "cost option"
  c_upgradeCosts :: "cost list"

record boost =
  b_id :: string
  b_name :: string
  b_type :: string
  b_resource :: "string option"
  b_maxLevel :: int
  b_bonusByLevel :: "rat list"
  b_costs :: "cost list"

record config =
  duration :: rat
  resource_ids :: "string list"
  creatures :: "creature list"
  boosts :: "boost list"

definition TIME_FACTOR :: rat where
  "TIME_FACTOR = 5"

definition HOURS :: rat where
  "HOURS = 60 * 60 * 1000"

definition EVENT_DURATION_HOURS :: rat where
  "EVENT_DURATION_HOURS = 72 / TIME_FACTOR"

definition fiona :: creature where
  "fiona = \<lparr> c_id = ''fiona'', c_name = ''Feral Fiona'', c_unlockedByDefault = True,
     c_produces = ''sapphires'', c_spawnTime = 5000 / TIME_FACTOR, c_maxLevel = 10,
     c_productionByLevel = [1, 2, 3, 4, 5, 6, 7, 8, 9, 10],
     c_damageByLevel = [5, 10, 25, 50, 100, 250, 500, 1000, 2500, 5000],
     c_unlockCost = None,
     c_upgradeCosts = [
       [(''sapphires'', 5)],
       [(''sapphires'', 50)],
       [(''emeralds'', 25)],
       [(''emeralds'', 100), (''sapphires'', 250)],
       [(''emeralds'', 2500)],
       [(''sapphires'', 5000)],
       [(''rubies'', 100)],
       [(''rubies'', 500), (''emeralds'', 10000)],
       [(''rubies'', 2500)]] \<rparr>"

definition jingles :: creature where
  "jingles = \<lparr> c_id = ''jingles'', c_name = ''Jingles'', c_unlockedByDefault = False,
     c_produces = ''emeralds'', c_spawnTime = 10000 / TIME_FACTOR, c_maxLevel = 10,
     c_productionByLevel = [1, 2, 3, 4, 5, 6, 7, 8, 9, 10],
     c_damageByLevel = [50, 100, 250, 500, 1000, 2500, 5000, 10000, 25000, 50000],
     c_unlockCost = Some [(''sapphires'', 250)],
     c_upgradeCosts = [
       [(''emeralds'', 50), (''sapphires'', 250)],
       [(''emeralds'', 250)],
       [(''emeralds'', 500), (''sapphires'', 1000)],
       [(''emeralds'', 2500)],
       [(''emeralds'', 3000), (''sapphires'', 10000)],
       [(''rubies'', 250)],
       [(''rubies'', 750), (''emeralds'', 5000)],
       [(''rubies'', 3000)],
       [(''emeralds'', 10000), (''sapphires'', 25000)]] \<rparr>"

definition ox :: creature where
  "ox = \<lparr> c_id = ''ox'', c_name = ''Ox'', c_unlockedByDefault = False,
     c_produces = ''sapphires'', c_spawnTime = 15000 / TIME_FACTOR, c_maxLevel = 10,
     c_productionByLevel = [6, 7, 8, 9, 10, 11, 12, 13, 14, 15],
     c_damageByLevel = [375, 750, 1875, 3750, 7500, 18750, 37500, 75000, 187500, 375000],
     c_unlockCost = Some [(''emeralds'', 1000)],
     c_upgradeCosts = [
       [(''sapphires'', 2500)],
       [(''emeralds'', 3000)],
       [(''emeralds'', 2500), (''sapphires'', 2500)],
       [(''rubies'', 1000)],
       [(''emeralds'', 5000), (''sapphires'', 5000)],
       [(''rubies'', 2500), (''sapphires'', 5000)],
       [(''rubies'', 4000)],
       [(''rubies'', 3000), (''emeralds'', 6000)],
       [(''sapphires'', 50000)]] \<rparr>"

definition batilda :: creature where
  "batilda = \<lparr> c_id = ''batilda'', c_name = ''Batilda'', c_unlockedByDefault = False,
     c_produces = ''rubies'', c_spawnTime = 20000 / TIME_FACTOR, c_maxLevel = 10,
     c_productionByLevel = [1, 2, 3, 4, 5, 6, 7, 8, 9, 10],
     c_damageByLevel = [1250, 2500, 6250, 12500, 25000, 62500, 125000, 250000, 500000, 1250000],
     c_unlockCost = Some [(''emeralds'', 5000), (''sapphires'', 10000)],
     c_upgradeCosts = [
       [(''rubies'', 2500), (''emeralds'', 2500)],
       [(''rubies'', 5000)],
       [(''rubies'', 7500), (''emeralds'', 7500)],
       [(''rubies'', 10000)],
       [(''rubies'', 15000), (''sapphires'', 10000)],
       [(''rubies'', 20000), (''emeralds'', 5000)],
       [(''rubies'', 25000)],
       [(''rubies'', 30000), (''emeralds'', 10000)],
       [(''rubies'', 50000), (''sapphires'', 25000)]] \<rparr>"

definition murky_mandy :: creature where
  "murky_mandy = \<lparr> c_id = ''murky-mandy'', c_name = ''Murky Mandy'', c_unlockedByDefault = False,
     c_produces = ''emeralds'', c_spawnTime = 25000 / TIME_FACTOR, c_maxLevel = 10,
     c_productionByLevel = [6, 7, 8, 9, 10, 11, 12, 13, 14, 15],
     c_damageByLevel = [10000, 20000, 50000, 100000, 200000, 500000, 1000000, 2000000,
       5000000, 10000000],
     c_unlockCost = Some [(''rubies'', 2500)],
     c_upgradeCosts = [
       [(''sapphires'', 25000)],
       [(''rubies'', 2500), (''emeralds'', 15000)],
       [(''emeralds'', 15000), (''sapphires'', 30000)],
       [(''rubies'', 7500)],
       [(''sapphires'', 75000)],
       [(''emeralds'', 25000), (''sapphires'', 50000)],
       [(''emeralds'', 50000)],
       [(''rubies'', 30000), (''sapphires'', 90000)],
       [(''rubies'', 40000)]] \<rparr>"

definition patches :: creature where
  "patches = \<lparr> c_id = ''patches'', c_name = ''Patches'', c_unlockedByDefault = False,
     c_produces = ''rubies'', c_spawnTime = 30000 / TIME_FACTOR, c_maxLevel = 10,
     c_productionByLevel = [6, 7, 8, 9, 10, 11, 12, 13, 14, 15],
     c_damageByLevel = [25000, 50000, 125000, 250000, 500000, 1250000, 2500000, 5000000,
       12500000, 25000000],
     c_unlockCost = Some [(''rubies'', 5000)],
     c_upgradeCosts = [
       [(''emeralds'', 10000)],
       [(''sapphires'', 50000)],
       [(''rubies'', 7500), (''emeralds'', 15000)],
       [(''sapphires'', 100000)],
       [(''emeralds'', 30000)],
       [(''rubies'', 30000)],
       [(''rubies'', 25000), (''sapphires'', 75000)],
       [(''emeralds'', 60000)],
       [(''rubies'', 50000), (''sapphires'', 150000)]] \<rparr>"

definition sapphire_boost :: boost where
  "sapphire_boost = \<lparr> b_id = ''sapphire-boost'', b_name = ''Sapphire Boost'',
     b_type = ''production-bonus'', b_resource = Some ''sapphires'', b_maxLevel = 5,
     b_bonusByLevel = [1, 2, 3, 4, 5],
     b_costs = [[(''emeralds'', 100)], [(''sapphires'', 1000)], [(''emeralds'', 2500)],
       [(''rubies'', 1000)], [(''emeralds'', 10000)]] \<rparr>"

definition emerald_boost :: boost where
  "emerald_boost = \<lparr> b_id = ''emerald-boost'', b_name = ''Emerald Boost'',
     b_type = ''production-bonus'', b_resource = Some ''emeralds'', b_maxLevel = 5,
     b_bonusByLevel = [1, 2, 3, 4, 5],
     b_costs = [[(''sapphires'', 500)], [(''emeralds'', 1000)], [(''rubies'', 500)],
       [(''sapphires'', 15000)], [(''rubies'', 5000)]] \<rparr>"

definition ruby_boost :: boost where
  "ruby_boost = \<lparr> b_id = ''ruby-boost'', b_name = ''Ruby Boost'',
     b_type = ''production-bonus'', b_resource = Some ''rubies'', b_maxLevel = 3,
     b_bonusByLevel = [1, 2, 3],
     b_costs = [[(''rubies'', 500)], [(''emeralds'', 25000)], [(''sapphires'', 75000)]] \<rparr>"

definition champion_speed :: boost where
  "champion_speed = \<lparr> b_id = ''champion-speed'', b_name = ''Champion Speed'',
     b_type = ''speed'', b_resource = None, b_maxLevel = 5,
     b_bonusByLevel = [5 / 100, 10 / 100, 15 / 100, 20 / 100, 25 / 100],
     b_costs = [[(''sapphires'', 10000)], [(''emeralds'', 25000)], [(''rubies'', 15000)],
       [(''sapphires'', 100000)], [(''emeralds'', 100000)]] \<rparr>"

definition champion_damage :: boost where
  "champion_damage = \<lparr> b_id = ''champion-damage'', b_name = ''Champion Damage'',
     b_type = ''damage'', b_resource = None, b_maxLevel = 4,
     b_bonusByLevel = [25 / 100, 50 / 100, 75 / 100, 1],
     b_costs = [[(''sapphires'', 25000)], [(''emeralds'', 50000)], [(''rubies'', 25000)],
       [(''sapphires'', 200000)]] \<rparr>"

definition EVENT_CONFIG :: config where
  "EVENT_CONFIG = \<lparr> duration = EVENT_DURATION_HOURS * HOURS,
     resource_ids = [''sapphires'', ''emeralds'', ''rubies''],
     creatures = [fiona, jingles, ox, batilda, murky_mandy, patches],
     boosts = [sapphire_boost, emerald_boost, ruby_boost, champion_speed, champion_damage] \<rparr>"

section \<open>GameSim (simulation.py)\<close>

text \<open>
  The mutable fields of a \<^verbatim>\<open>GameSim\<close> object. The configuration is immutable and is
  passed beside the state; \<^verbatim>\<open>self._creatures\<close>, \<^verbatim>\<open>self._boosts\<close>,
  \<^verbatim>\<open>self._creature_order\<close> and \<^verbatim>\<open>self._boost_order\<close> are functions of it.
\<close>

record sim =
  resources :: "string \<rightharpoonup> rat"
  creature_levels :: "string \<rightharpoonup> int"
  creature_unlocked :: "string \<rightharpoonup> bool"
  creature_progress :: "string \<rightharpoonup> rat"
  boost_levels :: "string \<rightharpoonup> int"
  total_damage :: rat
  time_elapsed_ms :: rat

text \<open>A dict comprehension over a list: a later entry with the same id replaces an earlier one.\<close>

definition creature_of :: "config \<Rightarrow> string \<Rightarrow> creature result" where
  "creature_of cfg cid = lookup (map_of (rev (map (\<lambda>c. (c_id c, c)) (creatures cfg)))) cid"

definition boost_of :: "config \<Rightarrow> string \<Rightarrow> boost result" where
  "boost_of cfg bid = lookup (map_of (rev (map (\<lambda>b. (b_id b, b)) (boosts cfg)))) bid"

definition creature_order :: "config \<Rightarrow> string list" where
  "creature_order cfg = map c_id (creatures cfg)"

definition boost_order :: "config \<Rightarrow> string list" where
  "boost_order cfg = map b_id (boosts cfg)"

definition reset :: "config \<Rightarrow> sim" where
  "reset cfg =
     \<lparr> resources = fold (\<lambda>r m. m(r \<mapsto> 0)) (resource_ids cfg) Map.empty,
       creature_levels =
         fold (\<lambda>c m. m(c_id c \<mapsto> (if c_unlockedByDefault c then 1 else 0))) (creatures cfg) Map.empty,
       creature_unlocked =
         fold (\<lambda>c m. m(c_id c \<mapsto> c_unlockedByDefault c)) (creatures cfg) Map.empty,
       creature_progress = fold (\<lambda>c m. m(c_id c \<mapsto> 0)) (creatures cfg) Map.empty,
       boost_levels = fold (\<lambda>bid m. m(bid \<mapsto> 0)) (boost_order cfg) Map.empty,
       total_damage = 0,
       time_elapsed_ms = 0 \<rparr>"

text \<open>\<^verbatim>\<open>GameSim.__init__\<close>: indexes the configuration and resets; nothing is validated.\<close>

definition GameSim :: "config \<Rightarrow> sim" where
  "GameSim cfg = reset cfg"

subsection \<open>Boost multipliers\<close>

fun speed_loop :: "config \<Rightarrow> sim \<Rightarrow> string list \<Rightarrow> rat result" where
  "speed_loop cfg s [] = Inr 1"
| "speed_loop cfg s (bid # bids) =
     rbind (boost_of cfg bid) (\<lambda>b.
       if b_type b = ''speed'' then
         rbind (lookup (boost_levels s) bid) (\<lambda>lv.
           if lv > 0 then rbind (py_nth (b_bonusByLevel b) (lv - 1)) (\<lambda>x. Inr (1 - x))
           else speed_loop cfg s bids)
       else speed_loop cfg s bids)"

definition get_speed_multiplier :: "config \<Rightarrow> sim \<Rightarrow> rat result" where
  "get_speed_multiplier cfg s = speed_loop cfg s (boost_order cfg)"

fun damage_loop :: "config \<Rightarrow> sim \<Rightarrow> string list \<Rightarrow> rat result" where
  "damage_loop cfg s [] = Inr 1"
| "damage_loop cfg s (bid # bids) =
     rbind (boost_of cfg bid) (\<lambda>b.
       if b_type b = ''damage'' then
         rbind (lookup (boost_levels s) bid) (\<lambda>lv.
           if lv > 0 then rbind (py_nth (b_bonusByLevel b) (lv - 1)) (\<lambda>x. Inr (1 + x))
           else damage_loop cfg s bids)
       else damage_loop cfg s bids)"

definition get_damage_multiplier :: "config \<Rightarrow> sim \<Rightarrow> rat result" where
  "get_damage_multiplier cfg s = damage_loop cfg s (boost_order cfg)"

fun production_loop :: "config \<Rightarrow> sim \<Rightarrow> string \<Rightarrow> string list \<Rightarrow> rat result" where
  "production_loop cfg s resource_id [] = Inr 0"
| "production_loop cfg s resource_id (bid # bids) =
     rbind (boost_of cfg bid) (\<lambda>b.
       if b_type b = ''production-bonus'' \<and> b_resource b = Some resource_id then
         rbind (lookup (boost_levels s) bid) (\<lambda>lv.
           if lv > 0 then py_nth (b_bonusByLevel b) (lv - 1)
           else production_loop cfg s resource_id bids)
       else production_loop cfg s resource_id bids)"

definition get_production_bonus :: "config \<Rightarrow> sim \<Rightarrow> string \<Rightarrow> rat result" where
  "get_production_bonus cfg s resource_id = production_loop cfg s resource_id (boost_order cfg)"

subsection \<open>Creature stats\<close>

definition get_effective_spawn_time :: "config \<Rightarrow> sim \<Rightarrow> creature \<Rightarrow> rat result" where
  "get_effective_spawn_time cfg s c =
     rbind (get_speed_multiplier cfg s) (\<lambda>m. Inr (c_spawnTime c * m))"


definition get_creature_damage :: "config \<Rightarrow> sim \<Rightarrow> string \<Rightarrow> rat result" where
  "get_creature_damage cfg s cid =
     rbind (creature_of cfg cid) (\<lambda>c.
     rbind (lookup (creature_levels s) cid) (\<lambda>lv.
     rbind (lookup (creature_unlocked s) cid) (\<lambda>unl.
       if \<not> unl \<or> lv = 0 then Inr 0
       else rbind (py_nth (c_damageByLevel c) (lv - 1)) (\<lambda>d.
            rbind (get_damage_multiplier cfg s) (\<lambda>m. Inr (d * m))))))"

text \<open>
  The loop condition \<^verbatim>\<open>not unlocked[cid] or levels[cid] == 0\<close> short-circuits: the level is
  looked up only for an unlocked creature.
\<close>

definition is_inactive :: "sim \<Rightarrow> string \<Rightarrow> bool result" where
  "is_inactive s cid =
     rbind (lookup (creature_unlocked s) cid) (\<lambda>unl.
       if \<not> unl then Inr True
       else rbind (lookup (creature_levels s) cid) (\<lambda>lv. Inr (lv = 0)))"

fun dps_loop :: "config \<Rightarrow> sim \<Rightarrow> rat \<Rightarrow> string list \<Rightarrow> rat result" where
  "dps_loop cfg s tot [] = Inr tot"
| "dps_loop cfg s tot (cid # cids) =
     rbind (is_inactive s cid) (\<lambda>skip.
       if skip then dps_loop cfg s tot cids
       else
         rbind (creature_of cfg cid) (\<lambda>c.
         rbind (get_effective_spawn_time cfg s c) (\<lambda>t.
           let spawn_s = t / 1000 in
           rbind (get_creature_damage cfg s cid) (\<lambda>d.
             if spawn_s = 0 then Inl ZeroDivisionError
             else dps_loop cfg s (tot + d / spawn_s) cids))))"

definition get_dps :: "config \<Rightarrow> sim \<Rightarrow> rat result" where
  "get_dps cfg s = dps_loop cfg s 0 (creature_order cfg)"

subsection \<open>Simulation tick\<close>

text \<open>
  The body of the \<^verbatim>\<open>for cid in self._creature_order\<close> loop of \<^verbatim>\<open>advance\<close>, in two
  parts: \<open>creature_tick\<close> is what follows \<^verbatim>\<open>if ticks == 0: continue\<close>, on the state \<open>s1\<close>
  whose progress accumulator already holds \<open>p\<close>.
\<close>

definition creature_tick ::
  "config \<Rightarrow> rat \<Rightarrow> sim \<Rightarrow> string \<Rightarrow> creature \<Rightarrow> int \<Rightarrow> rat \<Rightarrow> rat \<Rightarrow> int \<Rightarrow> sim result" where
  "creature_tick cfg dmg_mult s1 cid c lv p spawn_time ticks =
     (let s2 = s1\<lparr>creature_progress :=
                  (creature_progress s1)(cid \<mapsto> p - of_int ticks * spawn_time)\<rparr>
      in rbind (py_nth (c_productionByLevel c) (lv - 1)) (\<lambda>pl.
         rbind (get_production_bonus cfg s2 (c_produces c)) (\<lambda>bonus.
           let prod = pl + bonus in
           rbind (py_nth (c_damageByLevel c) (lv - 1)) (\<lambda>dl.
             let dmg = dl * dmg_mult in
             rbind (lookup (resources s2) (c_produces c)) (\<lambda>r.
               Inr (s2\<lparr>resources := (resources s2)(c_produces c \<mapsto> r + prod * of_int ticks),
                        total_damage := total_damage s2 + dmg * of_int ticks\<rparr>))))))"

definition advance_creature :: "config \<Rightarrow> rat \<Rightarrow> rat \<Rightarrow> rat \<Rightarrow> sim \<Rightarrow> string \<Rightarrow> sim result" where
  "advance_creature cfg speed dmg_mult delta_ms s cid =
     rbind (is_inactive s cid) (\<lambda>skip.
       if skip then Inr s
       else
         rbind (creature_of cfg cid) (\<lambda>c.
         rbind (lookup (creature_levels s) cid) (\<lambda>lv.
           let spawn_time = c_spawnTime c * speed in
           rbind (lookup (creature_progress s) cid) (\<lambda>p0.
             let p = p0 + delta_ms;
                 s1 = s\<lparr>creature_progress := (creature_progress s)(cid \<mapsto> p)\<rparr>
             in if spawn_time = 0 then Inl ZeroDivisionError
                else
                  let ticks = py_int (p / spawn_time) in
                  if ticks = 0 then Inr s1
                  else creature_tick cfg dmg_mult s1 cid c lv p spawn_time ticks))))"

fun advance_loop :: "config \<Rightarrow> rat \<Rightarrow> rat \<Rightarrow> rat \<Rightarrow> sim \<Rightarrow> string list \<Rightarrow> sim result" where
  "advance_loop cfg speed dmg_mult delta_ms s [] = Inr s"
| "advance_loop cfg speed dmg_mult delta_ms s (cid # cids) =
     rbind (advance_creature cfg speed dmg_mult delta_ms s cid)
       (\<lambda>s'. advance_loop cfg speed dmg_mult delta_ms s' cids)"

definition advance :: "config \<Rightarrow> rat \<Rightarrow> sim \<Rightarrow> sim result" where
  "advance cfg delta_ms s =
     rbind (get_speed_multiplier cfg s) (\<lambda>speed.
     rbind (get_damage_multiplier cfg s) (\<lambda>dmg_mult.
     rbind (advance_loop cfg speed dmg_mult delta_ms s (creature_order cfg)) (\<lambda>s'.
       Inr (s'\<lparr>time_elapsed_ms := time_elapsed_ms s' + delta_ms\<rparr>))))"

subsection \<open>Affordability\<close>

text \<open>\<^verbatim>\<open>cost is None\<close> is \<open>None\<close>; \<^verbatim>\<open>self.resources.get(r, 0.0)\<close> defaults to 0.\<close>

definition can_afford :: "sim \<Rightarrow> cost option \<Rightarrow> bool" where
  "can_afford s cost =
     (case cost of
        None \<Rightarrow> False
      | Some items \<Rightarrow>
          list_all (\<lambda>(r, amt). (case resources s r of None \<Rightarrow> 0 | Some x \<Rightarrow> x) \<ge> amt) items)"

fun spend :: "sim \<Rightarrow> cost \<Rightarrow> sim result" where
  "spend s [] = Inr s"
| "spend s ((r, amt) # items) =
     rbind (lookup (resources s) r) (\<lambda>x.
       spend (s\<lparr>resources := (resources s)(r \<mapsto> x - amt)\<rparr>) items)"

subsection \<open>Creature upgrades\<close>

definition get_creature_upgrade_cost :: "config \<Rightarrow> sim \<Rightarrow> string \<Rightarrow> cost option result" where
  "get_creature_upgrade_cost cfg s cid =
     rbind (creature_of cfg cid) (\<lambda>c.
     rbind (lookup (creature_unlocked s) cid) (\<lambda>unl.
       if \<not> unl then Inr (c_unlockCost c)
       else
         rbind (lookup (creature_levels s) cid) (\<lambda>lv.
           if lv \<ge> c_maxLevel c then Inr None
           else rbind (py_nth (c_upgradeCosts c) (lv - 1)) (\<lambda>k. Inr (Some k)))))"

definition upgrade_creature :: "config \<Rightarrow> sim \<Rightarrow> string \<Rightarrow> (sim \<times> bool) result" where
  "upgrade_creature cfg s cid =
     rbind (get_creature_upgrade_cost cfg s cid) (\<lambda>cost.
       case cost of
         None \<Rightarrow> Inr (s, False)
       | Some items \<Rightarrow>
           if \<not> can_afford s cost then Inr (s, False)
           else
             rbind (spend s items) (\<lambda>s1.
             rbind (lookup (creature_unlocked s1) cid) (\<lambda>unl.
               if \<not> unl then
                 Inr (s1\<lparr>creature_levels := (creature_levels s1)(cid \<mapsto> 1),
                          creature_unlocked := (creature_unlocked s1)(cid \<mapsto> True)\<rparr>, True)
               else
                 rbind (lookup (creature_levels s1) cid) (\<lambda>lv.
                   Inr (s1\<lparr>creature_levels := (creature_levels s1)(cid \<mapsto> lv + 1)\<rparr>, True)))))"

subsection \<open>Boost upgrades\<close>

definition get_boost_upgrade_cost :: "config \<Rightarrow> sim \<Rightarrow> string \<Rightarrow> cost option result" where
  "get_boost_upgrade_cost cfg s bid =
     rbind (boost_of cfg bid) (\<lambda>b.
     rbind (lookup (boost_levels s) bid) (\<lambda>lv.
       if lv \<ge> b_maxLevel b then Inr None
       else rbind (py_nth (b_costs b) lv) (\<lambda>k. Inr (Some k))))"

definition upgrade_boost :: "config \<Rightarrow> sim \<Rightarrow> string \<Rightarrow> (sim \<times> bool) result" where
  "upgrade_boost cfg s bid =
     rbind (get_boost_upgrade_cost cfg s bid) (\<lambda>cost.
       case cost of
         None \<Rightarrow> Inr (s, False)
       | Some items \<Rightarrow>
           if \<not> can_afford s cost then Inr (s, False)
           else
             rbind (spend s items) (\<lambda>s1.
             rbind (lookup (boost_levels s1) bid) (\<lambda>lv.
               Inr (s1\<lparr>boost_levels := (boost_levels s1)(bid \<mapsto> lv + 1)\<rparr>, True))))"

subsection \<open>Termination\<close>

definition is_done :: "config \<Rightarrow> sim \<Rightarrow> bool" where
  "is_done cfg s = (time_elapsed_ms s \<ge> duration cfg)"

section \<open>Specification predicates for the upgrade operations\<close>

text \<open>
  \<open>debited s items s'\<close>: the balances of \<open>s'\<close> are those of \<open>s\<close> with every amount
  listed in the cost subtracted, and every other balance untouched.
\<close>

definition debited :: "sim \<Rightarrow> cost \<Rightarrow> sim \<Rightarrow> bool" where
  "debited s items s' \<longleftrightarrow>
     (\<forall>r. resources s' r =
        (case map_of items r of
           None \<Rightarrow> resources s r
         | Some amt \<Rightarrow> map_option (\<lambda>x. x - amt) (resources s r)))"

definition creature_bought :: "sim \<Rightarrow> cost \<Rightarrow> string \<Rightarrow> sim \<Rightarrow> bool" where
  "creature_bought s items cid s' \<longleftrightarrow>
     debited s items s' \<and>
     (if creature_unlocked s cid = Some False
      then creature_unlocked s' = (creature_unlocked s)(cid \<mapsto> True) \<and>
           creature_levels s' = (creature_levels s)(cid \<mapsto> 1)
      else creature_unlocked s' = creature_unlocked s \<and>
           (\<exists>lv. creature_levels s cid = Some lv \<and>
                 creature_levels s' = (creature_levels s)(cid \<mapsto> lv + 1))) \<and>
     boost_levels s' = boost_levels s \<and> creature_progress s' = creature_progress s \<and>
     total_damage s' = total_damage s \<and> time_elapsed_ms s' = time_elapsed_ms s"

definition boost_bought :: "sim \<Rightarrow> cost \<Rightarrow> string \<Rightarrow> sim \<Rightarrow> bool" where
  "boost_bought s items bid s' \<longleftrightarrow>
     debited s items s' \<and>
     (\<exists>lv. boost_levels s bid = Some lv \<and> boost_levels s' = (boost_levels s)(bid \<mapsto> lv + 1)) \<and>
     creature_unlocked s' = creature_unlocked s \<and> creature_levels s' = creature_levels s \<and>
     creature_progress s' = creature_progress s \<and>
     total_damage s' = total_damage s \<and> time_elapsed_ms s' = time_elapsed_ms s"

text \<open>A state for concrete runs: the fresh state with 5 sapphires and 100 emeralds.\<close>

definition demo_state :: sim where
  "demo_state = (reset EVENT_CONFIG)\<lparr>resources := [''sapphires'' \<mapsto> 5, ''emeralds'' \<mapsto> 100, ''rubies'' \<mapsto> 0]\<rparr>"

section \<open>Well-formed configurations, reachable states, invariants\<close>

text \<open>
  What the invariants need of a configuration: every unit has at least one level, a positive
  spawn interval and non-negative production; every boost has a non-negative level cap, speed
  bonuses below 1 and non-negative production bonuses; a cost is a dict, so its keys are
  distinct.
\<close>

definition wf_config :: "config \<Rightarrow> bool" where
  "wf_config cfg \<longleftrightarrow>
     (\<forall>c \<in> set (creatures cfg).
        1 \<le> c_maxLevel c \<and> 0 < c_spawnTime c \<and>
        (\<forall>x \<in> set (c_productionByLevel c). 0 \<le> x) \<and>
        (\<forall>k \<in> set (c_upgradeCosts c). distinct (map fst k)) \<and>
        (\<forall>k. c_unlockCost c = Some k \<longrightarrow> distinct (map fst k))) \<and>
     (\<forall>b \<in> set (boosts cfg).
        0 \<le> b_maxLevel b \<and>
        (\<forall>k \<in> set (b_costs b). distinct (map fst k)) \<and>
        (b_type b = ''speed'' \<longrightarrow> (\<forall>x \<in> set (b_bonusByLevel b). x < 1)) \<and>
        (b_type b = ''production-bonus'' \<longrightarrow> (\<forall>x \<in> set (b_bonusByLevel b). 0 \<le> x)))"

text \<open>
  The states reachable from \<open>GameSim cfg\<close> by calls of \<open>advance\<close> (with a non-negative
  time step), \<open>upgrade_creature\<close> and \<open>upgrade_boost\<close> that return.
\<close>

inductive reachable :: "config \<Rightarrow> sim \<Rightarrow> bool" for cfg :: config where
  reach_init: "reachable cfg (GameSim cfg)"
| reach_advance: "reachable cfg s \<Longrightarrow> 0 \<le> delta_ms \<Longrightarrow> advance cfg delta_ms s = Inr s' \<Longrightarrow> reachable cfg s'"
| reach_upgrade_creature: "reachable cfg s \<Longrightarrow> upgrade_creature cfg s cid = Inr (s', ok) \<Longrightarrow> reachable cfg s'"
| reach_upgrade_boost: "reachable cfg s \<Longrightarrow> upgrade_boost cfg s bid = Inr (s', ok) \<Longrightarrow> reachable cfg s'"

definition economy_invariant :: "config \<Rightarrow> sim \<Rightarrow> bool" where
  "economy_invariant cfg s \<longleftrightarrow>
     (\<forall>r x. resources s r = Some x \<longrightarrow> 0 \<le> x) \<and>
     (\<forall>cid c lv. creature_of cfg cid = Inr c \<and> creature_levels s cid = Some lv \<longrightarrow> lv \<le> c_maxLevel c) \<and>
     (\<forall>bid b lv. boost_of cfg bid = Inr b \<and> boost_levels s bid = Some lv \<longrightarrow> lv \<le> b_maxLevel b) \<and>
     (\<forall>cid. creature_unlocked s cid = Some False \<longrightarrow> creature_levels s cid = Some 0)"

definition progress_nonneg :: "sim \<Rightarrow> bool" where
  "progress_nonneg s \<longleftrightarrow> (\<forall>cid p. creature_progress s cid = Some p \<longrightarrow> 0 \<le> p)"

definition balances_nonneg :: "sim \<Rightarrow> bool" where
  "balances_nonneg s \<longleftrightarrow> (\<forall>r x. resources s r = Some x \<longrightarrow> 0 \<le> x)"

definition levels_bounded :: "config \<Rightarrow> sim \<Rightarrow> bool" where
  "levels_bounded cfg s \<longleftrightarrow>
     (\<forall>cid c lv. creature_of cfg cid = Inr c \<and> creature_levels s cid = Some lv \<longrightarrow> lv \<le> c_maxLevel c)"

definition boosts_bounded :: "config \<Rightarrow> sim \<Rightarrow> bool" where
  "boosts_bounded cfg s \<longleftrightarrow>
     (\<forall>bid b lv. boost_of cfg bid = Inr b \<and> boost_levels s bid = Some lv \<longrightarrow> lv \<le> b_maxLevel b)"

definition locked_at_zero :: "sim \<Rightarrow> bool" where
  "locked_at_zero s \<longleftrightarrow>
     (\<forall>cid. creature_unlocked s cid = Some False \<longrightarrow> creature_levels s cid = Some 0)"

section \<open>Closed form of one call of advance\<close>

text \<open>
  The specification of \<open>advance\<close>, in its own words: a unit is active when it is unlocked with
  level at least 1; its effective interval is the base spawn interval times the speed
  multiplier; its ticks are the floor of (progress + delta) / interval. \<open>val\<close> reads a result,
  with 0 for an error.
\<close>

definition val :: "rat result \<Rightarrow> rat" where
  "val m = (case m of Inl e \<Rightarrow> 0 | Inr x \<Rightarrow> x)"











section \<open>The run without purchases\<close>








section \<open>Priority orderings and the evaluator (optimizer.py)\<close>

text \<open>
  A step of a priority ordering is \<^verbatim>\<open>(kind, uid, display_name)\<close>; a key is \<^verbatim>\<open>(kind, uid)\<close>.
  The module constant \<^verbatim>\<open>EVENT_CONFIG\<close> that the functions of \<^verbatim>\<open>optimizer.py\<close> read is their
  first parameter here.
\<close>

type_synonym step = "string \<times> string \<times> string"

type_synonym key = "string \<times> string"

definition STEP_MS :: rat where
  "STEP_MS = 60000"

definition creature_steps :: "creature \<Rightarrow> step list" where
  "creature_steps c =
     replicate (nat (if \<not> c_unlockedByDefault c then c_maxLevel c else c_maxLevel c - 1))
       (''creature'', c_id c, c_name c)"

definition boost_steps :: "boost \<Rightarrow> step list" where
  "boost_steps b = replicate (nat (b_maxLevel b)) (''boost'', b_id b, b_name b)"

definition build_template :: "config \<Rightarrow> step list" where
  "build_template cfg =
     concat (map creature_steps (creatures cfg)) @ concat (map boost_steps (boosts cfg))"

definition key_of :: "step \<Rightarrow> key" where
  "key_of st = (fst st, fst (snd st))"

text \<open>
  \<^verbatim>\<open>pos_map\<close> is a dict from key to the list of its positions; its items are iterated in
  insertion order, so it is an association list with a new key added at the end.
\<close>

fun pos_map_add :: "(key \<times> nat list) list \<Rightarrow> key \<Rightarrow> nat \<Rightarrow> (key \<times> nat list) list" where
  "pos_map_add [] k pos = [(k, [pos])]"
| "pos_map_add ((k', ps) # rest) k pos =
     (if k' = k then (k', ps @ [pos]) # rest else (k', ps) # pos_map_add rest k pos)"

definition build_pos_map :: "step list \<Rightarrow> (key \<times> nat list) list" where
  "build_pos_map priority =
     fold (\<lambda>(pos, st) pos_map. pos_map_add pos_map (key_of st) pos) (enumerate 0 priority) []"

definition current_cost :: "config \<Rightarrow> sim \<Rightarrow> key \<Rightarrow> cost option result" where
  "current_cost cfg s k =
     (if fst k = ''creature'' then get_creature_upgrade_cost cfg s (snd k)
      else get_boost_upgrade_cost cfg s (snd k))"

text \<open>The truth value of \<^verbatim>\<open>cost\<close> in \<^verbatim>\<open>if cost and ...\<close>: \<^verbatim>\<open>None\<close> and the empty dict are false.\<close>

definition truthy :: "cost option \<Rightarrow> bool" where
  "truthy cost = (case cost of None \<Rightarrow> False | Some items \<Rightarrow> items \<noteq> [])"

text \<open>
  The scan \<^verbatim>\<open>for key, positions in pos_map.items()\<close>, threading \<^verbatim>\<open>(best_pos, best_key)\<close>.
  \<^verbatim>\<open>counts\<close> has exactly the keys of \<^verbatim>\<open>pos_map\<close>, all starting at 0, and is read at those keys
  only: it is a total function here.
\<close>

fun select_loop ::
  "config \<Rightarrow> sim \<Rightarrow> (key \<Rightarrow> nat) \<Rightarrow> (key \<times> nat list) list \<Rightarrow> nat \<times> key option \<Rightarrow> (nat \<times> key option) result" where
  "select_loop cfg s counts [] best = Inr best"
| "select_loop cfg s counts ((k, positions) # rest) (best_pos, best_key) =
     (if counts k \<ge> length positions then select_loop cfg s counts rest (best_pos, best_key)
      else if positions ! counts k \<ge> best_pos then select_loop cfg s counts rest (best_pos, best_key)
      else rbind (current_cost cfg s k) (\<lambda>cost.
             if truthy cost \<and> can_afford s cost
             then select_loop cfg s counts rest (positions ! counts k, Some k)
             else select_loop cfg s counts rest (best_pos, best_key)))"

definition purchase :: "config \<Rightarrow> sim \<Rightarrow> key \<Rightarrow> (sim \<times> bool) result" where
  "purchase cfg s k =
     (if fst k = ''creature'' then upgrade_creature cfg s (snd k) else upgrade_boost cfg s (snd k))"

text \<open>One pass of the body of \<^verbatim>\<open>while not sim.is_done()\<close>.\<close>

definition decision_tick ::
  "config \<Rightarrow> (key \<times> nat list) list \<Rightarrow> nat \<Rightarrow> sim \<times> (key \<Rightarrow> nat) \<Rightarrow> (sim \<times> (key \<Rightarrow> nat)) result" where
  "decision_tick cfg pos_map n st =
     rbind (select_loop cfg (fst st) (snd st) pos_map (n, None)) (\<lambda>best.
     rbind (case snd best of
              None \<Rightarrow> Inr st
            | Some k \<Rightarrow> rbind (purchase cfg (fst st) k)
                          (\<lambda>r. Inr (fst r, (snd st)(k := snd st k + 1))))
       (\<lambda>st1. rbind (advance cfg STEP_MS (fst st1)) (\<lambda>s2. Inr (s2, snd st1))))"








text \<open>
  \<^verbatim>\<open>simulate_with_log\<close>: the same loop, which also appends a record to the log at each
  purchase. The formatted label is kept as a value: \<^verbatim>\<open>Unlock name\<close>,
  \<^verbatim>\<open>Upgrade name -> Lv lv\<close> or \<^verbatim>\<open>Buy name Lv lv\<close>.
\<close>

datatype action = Unlock string | Upgrade string int | Buy string int

type_synonym log_entry = "rat \<times> action"

definition name_map :: "step list \<Rightarrow> key \<rightharpoonup> string" where
  "name_map priority = map_of (rev (map (\<lambda>st. (key_of st, snd (snd st))) priority))"

definition logged_purchase ::
  "config \<Rightarrow> (key \<rightharpoonup> string) \<Rightarrow> sim \<Rightarrow> key \<Rightarrow> ((sim \<times> bool) \<times> log_entry) result" where
  "logged_purchase cfg names s k =
     rbind (lookup names k) (\<lambda>name.
       let t_h = time_elapsed_ms s / 3600000 in
       if fst k = ''creature'' then
         rbind (upgrade_creature cfg s (snd k)) (\<lambda>r.
         rbind (lookup (creature_levels (fst r)) (snd k)) (\<lambda>lv.
           Inr (r, (t_h, if lv = 1 then Unlock name else Upgrade name lv))))
       else
         rbind (upgrade_boost cfg s (snd k)) (\<lambda>r.
         rbind (lookup (boost_levels (fst r)) (snd k)) (\<lambda>lv.
           Inr (r, (t_h, Buy name lv)))))"

definition decision_tick_log ::
  "config \<Rightarrow> (key \<times> nat list) list \<Rightarrow> (key \<rightharpoonup> string) \<Rightarrow> nat \<Rightarrow>
   (sim \<times> (key \<Rightarrow> nat)) \<times> log_entry list \<Rightarrow> ((sim \<times> (key \<Rightarrow> nat)) \<times> log_entry list) result" where
  "decision_tick_log cfg pos_map names n stl =
     rbind (select_loop cfg (fst (fst stl)) (snd (fst stl)) pos_map (n, None)) (\<lambda>best.
     rbind (case snd best of
              None \<Rightarrow> Inr stl
            | Some k \<Rightarrow> rbind (logged_purchase cfg names (fst (fst stl)) k)
                          (\<lambda>r. Inr ((fst (fst r), (snd (fst stl))(k := snd (fst stl) k + 1)),
                                    snd stl @ [snd r])))
       (\<lambda>stl1. rbind (advance cfg STEP_MS (fst (fst stl1)))
                  (\<lambda>s2. Inr ((s2, snd (fst stl1)), snd stl1))))"

section \<open>Basic facts\<close>

lemmas config_defs = EVENT_CONFIG_def fiona_def jingles_def ox_def batilda_def murky_mandy_def
  patches_def sapphire_boost_def emerald_boost_def ruby_boost_def champion_speed_def
  champion_damage_def TIME_FACTOR_def HOURS_def EVENT_DURATION_HOURS_def

lemma rbind_Inr [simp]: "rbind (Inr x) f = f x"
  by (simp add: rbind_def)

lemma rbind_Inl [simp]: "rbind (Inl e) f = Inl e"
  by (simp add: rbind_def)

lemma rbind_eq_Inr: "rbind m f = Inr y \<longleftrightarrow> (\<exists>x. m = Inr x \<and> f x = Inr y)"
  by (cases m) simp_all

lemma lookup_eq_Inr [simp]: "lookup m k = Inr v \<longleftrightarrow> m k = Some v"
  by (simp add: lookup_def split: option.splits)

lemma lookup_Some: "m k = Some v \<Longrightarrow> lookup m k = Inr v"
  by simp

lemma spend_frame:
  "spend s items = Inr s' \<Longrightarrow>
     creature_levels s' = creature_levels s \<and> creature_unlocked s' = creature_unlocked s \<and>
     creature_progress s' = creature_progress s \<and> boost_levels s' = boost_levels s \<and>
     total_damage s' = total_damage s \<and> time_elapsed_ms s' = time_elapsed_ms s"
proof (induction items arbitrary: s)
  case Nil
  then show ?case by simp
next
  case (Cons a items)
  obtain r amt where a: "a = (r, amt)" by (cases a)
  from Cons.prems obtain x where
    sp: "spend (s\<lparr>resources := (resources s)(r \<mapsto> x - amt)\<rparr>) items = Inr s'"
    by (auto simp: a rbind_eq_Inr)
  from Cons.IH [OF sp] show ?case by simp
qed

lemma spend_debits:
  "distinct (map fst items) \<Longrightarrow> fst ` set items \<subseteq> dom (resources s) \<Longrightarrow>
   \<exists>s'. spend s items = Inr s' \<and> debited s items s'"
proof (induction items arbitrary: s)
  case Nil
  then show ?case by (simp add: debited_def)
next
  case (Cons a items)
  obtain r amt where a: "a = (r, amt)" by (cases a)
  from Cons.prems obtain x where x: "resources s r = Some x" by (auto simp: a)
  let ?s1 = "s\<lparr>resources := (resources s)(r \<mapsto> x - amt)\<rparr>"
  have d: "distinct (map fst items)" and nin: "r \<notin> fst ` set items"
    using Cons.prems(1) by (auto simp: a)
  have sub: "fst ` set items \<subseteq> dom (resources ?s1)"
    using Cons.prems(2) by auto
  from Cons.IH [OF d sub] obtain s' where s': "spend ?s1 items = Inr s'" and deb: "debited ?s1 items s'"
    by blast
  have nomap: "map_of items r = None"
    using nin by (simp add: map_of_eq_None_iff)
  have "debited s (a # items) s'"
    unfolding debited_def
  proof
    fix q
    show "resources s' q = (case map_of (a # items) q of None \<Rightarrow> resources s q
        | Some amt \<Rightarrow> map_option (\<lambda>x. x - amt) (resources s q))"
      using deb x nomap by (cases "q = r") (auto simp: debited_def a split: option.splits)
  qed
  with s' x show ?case by (auto simp: a lookup_def)
qed

lemma upgrade_creature_rejected:
  assumes "get_creature_upgrade_cost cfg s cid = Inr cost"
    and "cost = None \<or> \<not> can_afford s cost"
  shows "upgrade_creature cfg s cid = Inr (s, False)"
  using assms by (auto simp: upgrade_creature_def split: option.splits)

lemma upgrade_boost_rejected:
  assumes "get_boost_upgrade_cost cfg s bid = Inr cost"
    and "cost = None \<or> \<not> can_afford s cost"
  shows "upgrade_boost cfg s bid = Inr (s, False)"
  using assms by (auto simp: upgrade_boost_def split: option.splits)

lemma cost_unlocked_known:
  "get_creature_upgrade_cost cfg s cid = Inr cost \<Longrightarrow> \<exists>u. creature_unlocked s cid = Some u"
  by (auto simp: get_creature_upgrade_cost_def rbind_eq_Inr)

lemma cost_level_known:
  "get_creature_upgrade_cost cfg s cid = Inr cost \<Longrightarrow> creature_unlocked s cid = Some True \<Longrightarrow>
   \<exists>lv. creature_levels s cid = Some lv"
  by (auto simp: get_creature_upgrade_cost_def rbind_eq_Inr split: if_splits)

lemma boost_cost_level_known:
  "get_boost_upgrade_cost cfg s bid = Inr cost \<Longrightarrow> \<exists>lv. boost_levels s bid = Some lv"
  by (auto simp: get_boost_upgrade_cost_def rbind_eq_Inr)

lemma upgrade_creature_applied:
  assumes c: "get_creature_upgrade_cost cfg s cid = Inr (Some items)"
    and a: "can_afford s (Some items)"
    and d: "distinct (map fst items)"
    and k: "fst ` set items \<subseteq> dom (resources s)"
  shows "\<exists>s'. upgrade_creature cfg s cid = Inr (s', True) \<and> creature_bought s items cid s'"
proof -
  from spend_debits [OF d k] obtain s1 where s1: "spend s items = Inr s1" and deb: "debited s items s1"
    by blast
  note fr = spend_frame [OF s1]
  from cost_unlocked_known [OF c] obtain u where u: "creature_unlocked s cid = Some u" by blast
  have u1: "creature_unlocked s1 cid = Some u" by (simp add: fr u)
  show ?thesis
  proof (cases u)
    case False
    let ?s' = "s1\<lparr>creature_levels := (creature_levels s1)(cid \<mapsto> 1),
                    creature_unlocked := (creature_unlocked s1)(cid \<mapsto> True)\<rparr>"
    have "upgrade_creature cfg s cid = Inr (?s', True)"
      using c a s1 u1 False by (simp add: upgrade_creature_def lookup_def)
    moreover have "creature_bought s items cid ?s'"
      using deb u False fr by (simp add: creature_bought_def debited_def)
    ultimately show ?thesis by blast
  next
    case True
    from cost_level_known [OF c] u True obtain lv where lv: "creature_levels s cid = Some lv" by auto
    have lv1: "creature_levels s1 cid = Some lv" by (simp add: fr lv)
    let ?s' = "s1\<lparr>creature_levels := (creature_levels s1)(cid \<mapsto> lv + 1)\<rparr>"
    have "upgrade_creature cfg s cid = Inr (?s', True)"
      using c a s1 u1 lv1 True by (simp add: upgrade_creature_def lookup_def)
    moreover have "creature_bought s items cid ?s'"
      using deb u lv True fr by (simp add: creature_bought_def debited_def)
    ultimately show ?thesis by blast
  qed
qed

lemma upgrade_boost_applied:
  assumes c: "get_boost_upgrade_cost cfg s bid = Inr (Some items)"
    and a: "can_afford s (Some items)"
    and d: "distinct (map fst items)"
    and k: "fst ` set items \<subseteq> dom (resources s)"
  shows "\<exists>s'. upgrade_boost cfg s bid = Inr (s', True) \<and> boost_bought s items bid s'"
proof -
  from spend_debits [OF d k] obtain s1 where s1: "spend s items = Inr s1" and deb: "debited s items s1"
    by blast
  note fr = spend_frame [OF s1]
  from boost_cost_level_known [OF c] obtain lv where lv: "boost_levels s bid = Some lv" by blast
  have lv1: "boost_levels s1 bid = Some lv" by (simp add: fr lv)
  let ?s' = "s1\<lparr>boost_levels := (boost_levels s1)(bid \<mapsto> lv + 1)\<rparr>"
  have "upgrade_boost cfg s bid = Inr (?s', True)"
    using c a s1 lv1 by (simp add: upgrade_boost_def lookup_def)
  moreover have "boost_bought s items bid ?s'"
    using deb lv fr by (simp add: boost_bought_def debited_def)
  ultimately show ?thesis by blast
qed

section \<open>Upgrades: rejection and purchase\<close>

lemma demo_fiona_cost:
  "get_creature_upgrade_cost EVENT_CONFIG demo_state ''fiona'' = Inr (Some [(''sapphires'', 5)])"
  by (simp add: get_creature_upgrade_cost_def creature_of_def demo_state_def reset_def config_defs
      lookup_def py_nth_def)

lemma demo_jingles_cost:
  "get_creature_upgrade_cost EVENT_CONFIG demo_state ''jingles'' = Inr (Some [(''sapphires'', 250)])"
  by (simp add: get_creature_upgrade_cost_def creature_of_def demo_state_def reset_def config_defs
      lookup_def py_nth_def)

lemma demo_sapphire_boost_cost:
  "get_boost_upgrade_cost EVENT_CONFIG demo_state ''sapphire-boost'' = Inr (Some [(''emeralds'', 100)])"
  by (simp add: get_boost_upgrade_cost_def boost_of_def boost_order_def demo_state_def reset_def config_defs
      lookup_def py_nth_def)

lemma demo_ruby_boost_cost:
  "get_boost_upgrade_cost EVENT_CONFIG demo_state ''ruby-boost'' = Inr (Some [(''rubies'', 500)])"
  by (simp add: get_boost_upgrade_cost_def boost_of_def boost_order_def demo_state_def reset_def config_defs
      lookup_def py_nth_def)

lemma demo_resources:
  "resources demo_state = [''sapphires'' \<mapsto> 5, ''emeralds'' \<mapsto> 100, ''rubies'' \<mapsto> 0]"
  by (simp add: demo_state_def)

text \<open>
  C2. For every state and every unit or boost id: when the current upgrade cost is "not
  purchasable" (\<open>None\<close>) or \<open>can_afford\<close> of it is false, \<open>upgrade_creature\<close> /
  \<open>upgrade_boost\<close> returns False and the state is unchanged. Otherwise (the cost being a
  dict over resources of the state) every resource listed in the cost is debited, a locked
  unit becomes unlocked at level 1, an unlocked unit gains one level, a boost gains one
  level, nothing else changes, and the call returns True.
\<close>

theorem upgrade_spec:
  "(get_creature_upgrade_cost cfg s cid = Inr cost \<and> (cost = None \<or> \<not> can_afford s cost)
      \<longrightarrow> upgrade_creature cfg s cid = Inr (s, False)) \<and>
   (get_creature_upgrade_cost cfg s cid = Inr (Some items) \<and> can_afford s (Some items) \<and>
    distinct (map fst items) \<and> fst ` set items \<subseteq> dom (resources s)
      \<longrightarrow> (\<exists>s'. upgrade_creature cfg s cid = Inr (s', True) \<and> creature_bought s items cid s')) \<and>
   (get_boost_upgrade_cost cfg s bid = Inr bcost \<and> (bcost = None \<or> \<not> can_afford s bcost)
      \<longrightarrow> upgrade_boost cfg s bid = Inr (s, False)) \<and>
   (get_boost_upgrade_cost cfg s bid = Inr (Some bitems) \<and> can_afford s (Some bitems) \<and>
    distinct (map fst bitems) \<and> fst ` set bitems \<subseteq> dom (resources s)
      \<longrightarrow> (\<exists>s'. upgrade_boost cfg s bid = Inr (s', True) \<and> boost_bought s bitems bid s'))"
  using upgrade_creature_rejected [of cfg s cid cost] upgrade_creature_applied [of cfg s cid items]
    upgrade_boost_rejected [of cfg s bid bcost] upgrade_boost_applied [of cfg s bid bitems]
  by blast

theorem upgrade_spec_witness:
  "get_creature_upgrade_cost EVENT_CONFIG demo_state ''jingles'' = Inr (Some [(''sapphires'', 250)]) \<and>
   \<not> can_afford demo_state (Some [(''sapphires'', 250)]) \<and>
   get_boost_upgrade_cost EVENT_CONFIG demo_state ''ruby-boost'' = Inr (Some [(''rubies'', 500)]) \<and>
   \<not> can_afford demo_state (Some [(''rubies'', 500)]) \<and>
   get_creature_upgrade_cost EVENT_CONFIG demo_state ''fiona'' = Inr (Some [(''sapphires'', 5)]) \<and>
   can_afford demo_state (Some [(''sapphires'', 5)]) \<and>
   get_boost_upgrade_cost EVENT_CONFIG demo_state ''sapphire-boost'' = Inr (Some [(''emeralds'', 100)]) \<and>
   can_afford demo_state (Some [(''emeralds'', 100)]) \<and>
   upgrade_creature EVENT_CONFIG demo_state ''jingles'' = Inr (demo_state, False) \<and>
   upgrade_boost EVENT_CONFIG demo_state ''ruby-boost'' = Inr (demo_state, False) \<and>
   (\<exists>s'. upgrade_creature EVENT_CONFIG demo_state ''fiona'' = Inr (s', True) \<and>
         creature_bought demo_state [(''sapphires'', 5)] ''fiona'' s') \<and>
   (\<exists>s'. upgrade_boost EVENT_CONFIG demo_state ''sapphire-boost'' = Inr (s', True) \<and>
         boost_bought demo_state [(''emeralds'', 100)] ''sapphire-boost'' s')"
  using upgrade_spec [of EVENT_CONFIG demo_state "''jingles''" "Some [(''sapphires'', 250)]"
      "[]" "''ruby-boost''" "Some [(''rubies'', 500)]" "[]"]
    upgrade_spec [of EVENT_CONFIG demo_state "''fiona''" None
      "[(''sapphires'', 5)]" "''sapphire-boost''" None "[(''emeralds'', 100)]"]
  by (simp add: demo_fiona_cost demo_jingles_cost demo_sapphire_boost_cost demo_ruby_boost_cost
      can_afford_def demo_resources)

lemma py_nth_mem: "py_nth xs i = Inr x \<Longrightarrow> x \<in> set xs"
  by (auto simp: py_nth_def split: if_splits)

lemma creature_of_mem: "creature_of cfg cid = Inr c \<Longrightarrow> c \<in> set (creatures cfg) \<and> c_id c = cid"
  by (auto simp: creature_of_def dest!: map_of_SomeD)

lemma boost_of_mem: "boost_of cfg bid = Inr b \<Longrightarrow> b \<in> set (boosts cfg) \<and> b_id b = bid"
  by (auto simp: boost_of_def dest!: map_of_SomeD)

lemma fold_upd_map_of:
  "fold (\<lambda>c m. m(k c \<mapsto> v c)) cs m0 = m0 ++ map_of (rev (map (\<lambda>c. (k c, v c)) cs))"
proof (induction cs arbitrary: m0)
  case Nil
  then show ?case by simp
next
  case (Cons c cs)
  have step: "m0(k c \<mapsto> v c) ++ map_of (rev (map (\<lambda>c. (k c, v c)) cs))
      = m0 ++ (map_of (rev (map (\<lambda>c. (k c, v c)) (c # cs))))"
    by (simp add: fun_eq_iff map_add_def split: option.splits)
  have "fold (\<lambda>c m. m(k c \<mapsto> v c)) (c # cs) m0 = fold (\<lambda>c m. m(k c \<mapsto> v c)) cs (m0(k c \<mapsto> v c))"
    by (simp only: fold_simps)
  also have "\<dots> = m0(k c \<mapsto> v c) ++ map_of (rev (map (\<lambda>c. (k c, v c)) cs))"
    by (rule Cons.IH)
  also note step
  finally show ?case .
qed

lemma fold_upd_lookup:
  "fold (\<lambda>c m. m(k c \<mapsto> v c)) cs Map.empty x
     = map_option v (map_of (rev (map (\<lambda>c. (k c, c)) cs)) x)"
proof -
  have "map_of (rev (map (\<lambda>c. (k c, v c)) cs)) x = map_option v (map_of (rev (map (\<lambda>c. (k c, c)) cs)) x)"
    by (induction cs) (auto simp: map_add_def split: option.splits)
  then show ?thesis by (simp add: fold_upd_map_of)
qed

lemma reset_resources: "resources (reset cfg) r = Some x \<Longrightarrow> x = 0"
  by (auto simp: reset_def fold_upd_lookup)

lemma reset_progress: "creature_progress (reset cfg) cid = Some p \<Longrightarrow> p = 0"
  by (auto simp: reset_def fold_upd_lookup)

lemma reset_boost_levels: "boost_levels (reset cfg) bid = Some lv \<Longrightarrow> lv = 0"
  by (auto simp: reset_def fold_upd_lookup)

lemma reset_levels:
  "creature_levels (reset cfg) cid =
     map_option (\<lambda>c. if c_unlockedByDefault c then 1 else 0) (map_of (rev (map (\<lambda>c. (c_id c, c)) (creatures cfg))) cid)"
  by (simp add: reset_def fold_upd_lookup)

lemma reset_unlocked:
  "creature_unlocked (reset cfg) cid =
     map_option c_unlockedByDefault (map_of (rev (map (\<lambda>c. (c_id c, c)) (creatures cfg))) cid)"
  by (simp add: reset_def fold_upd_lookup)

lemma init_invariant:
  assumes "wf_config cfg"
  shows "economy_invariant cfg (GameSim cfg) \<and> progress_nonneg (GameSim cfg)"
proof -
  have a: "\<forall>r x. resources (reset cfg) r = Some x \<longrightarrow> 0 \<le> x"
    using reset_resources by fastforce
  have b: "\<forall>cid c lv. creature_of cfg cid = Inr c \<and> creature_levels (reset cfg) cid = Some lv
      \<longrightarrow> lv \<le> c_maxLevel c"
  proof (intro allI impI, elim conjE)
    fix cid c lv
    assume c: "creature_of cfg cid = Inr c" and lv: "creature_levels (reset cfg) cid = Some lv"
    from c have mem: "c \<in> set (creatures cfg)" using creature_of_mem by blast
    from c lv have "lv = (if c_unlockedByDefault c then 1 else 0)"
      by (simp add: reset_levels creature_of_def)
    moreover from assms mem have "1 \<le> c_maxLevel c" by (simp add: wf_config_def)
    ultimately show "lv \<le> c_maxLevel c" by simp
  qed
  have c: "\<forall>bid b lv. boost_of cfg bid = Inr b \<and> boost_levels (reset cfg) bid = Some lv
      \<longrightarrow> lv \<le> b_maxLevel b"
  proof (intro allI impI, elim conjE)
    fix bid b lv
    assume b: "boost_of cfg bid = Inr b" and lv: "boost_levels (reset cfg) bid = Some lv"
    from b have mem: "b \<in> set (boosts cfg)" using boost_of_mem by blast
    from lv have "lv = 0" by (rule reset_boost_levels)
    moreover from assms mem have "0 \<le> b_maxLevel b" by (simp add: wf_config_def)
    ultimately show "lv \<le> b_maxLevel b" by simp
  qed
  have d: "\<forall>cid. creature_unlocked (reset cfg) cid = Some False \<longrightarrow> creature_levels (reset cfg) cid = Some 0"
    by (auto simp: reset_levels reset_unlocked)
  have e: "progress_nonneg (reset cfg)"
    using reset_progress by (fastforce simp: progress_nonneg_def)
  from a b c d e show ?thesis by (simp add: economy_invariant_def GameSim_def)
qed

lemma production_loop_cong:
  "boost_levels s1 = boost_levels s \<Longrightarrow> production_loop cfg s1 r bids = production_loop cfg s r bids"
  by (induction bids) (simp_all cong: if_cong)

lemma get_production_bonus_cong:
  "boost_levels s1 = boost_levels s \<Longrightarrow> get_production_bonus cfg s1 r = get_production_bonus cfg s r"
  unfolding get_production_bonus_def by (rule production_loop_cong)

lemma speed_loop_cong:
  "boost_levels s1 = boost_levels s \<Longrightarrow> speed_loop cfg s1 bids = speed_loop cfg s bids"
  by (induction bids) (simp_all cong: if_cong)

lemma damage_loop_cong:
  "boost_levels s1 = boost_levels s \<Longrightarrow> damage_loop cfg s1 bids = damage_loop cfg s bids"
  by (induction bids) (simp_all cong: if_cong)


lemma is_inactive_False:
  "is_inactive s cid = Inr False \<longleftrightarrow>
     creature_unlocked s cid = Some True \<and> (\<exists>lv. creature_levels s cid = Some lv \<and> lv \<noteq> 0)"
proof (cases "creature_unlocked s cid")
  case None
  then show ?thesis by (simp add: is_inactive_def lookup_def)
next
  case (Some u)
  then show ?thesis
    by (cases "creature_levels s cid") (simp_all add: is_inactive_def lookup_def)
qed

lemma creature_tick_Inr:
  assumes "creature_tick cfg dm s1 cid c lv p t k = Inr s'"
  shows "\<exists>pl bonus dl r.
      py_nth (c_productionByLevel c) (lv - 1) = Inr pl \<and>
      get_production_bonus cfg s1 (c_produces c) = Inr bonus \<and>
      py_nth (c_damageByLevel c) (lv - 1) = Inr dl \<and>
      resources s1 (c_produces c) = Some r \<and>
      s' = s1\<lparr>creature_progress := (creature_progress s1)(cid \<mapsto> p - of_int k * t),
              resources := (resources s1)(c_produces c \<mapsto> r + (pl + bonus) * of_int k),
              total_damage := total_damage s1 + dl * dm * of_int k\<rparr>"
proof -
  let ?s2 = "s1\<lparr>creature_progress := (creature_progress s1)(cid \<mapsto> p - of_int k * t)\<rparr>"
  have bl: "get_production_bonus cfg ?s2 (c_produces c) = get_production_bonus cfg s1 (c_produces c)"
    by (rule get_production_bonus_cong) simp
  from assms obtain pl where pl: "py_nth (c_productionByLevel c) (lv - 1) = Inr pl"
    unfolding creature_tick_def Let_def rbind_eq_Inr by blast
  from assms pl obtain bonus where bonus: "get_production_bonus cfg s1 (c_produces c) = Inr bonus"
    unfolding creature_tick_def Let_def bl by (cases "get_production_bonus cfg s1 (c_produces c)") simp_all
  from assms pl bonus obtain dl where dl: "py_nth (c_damageByLevel c) (lv - 1) = Inr dl"
    unfolding creature_tick_def Let_def bl by (cases "py_nth (c_damageByLevel c) (lv - 1)") simp_all
  from assms pl bonus dl obtain r where r: "resources s1 (c_produces c) = Some r"
    unfolding creature_tick_def Let_def bl by (cases "resources s1 (c_produces c)") (simp_all add: lookup_def)
  from assms pl bonus dl r
  have "s' = s1\<lparr>creature_progress := (creature_progress s1)(cid \<mapsto> p - of_int k * t),
              resources := (resources s1)(c_produces c \<mapsto> r + (pl + bonus) * of_int k),
              total_damage := total_damage s1 + dl * dm * of_int k\<rparr>"
    unfolding creature_tick_def Let_def bl by (simp add: lookup_def)
  with pl bonus dl r show ?thesis by blast
qed

lemma advance_creature_active:
  assumes "is_inactive s cid = Inr False" and "creature_of cfg cid = Inr c"
    and "creature_levels s cid = Some lv" and "creature_progress s cid = Some p0"
  shows "advance_creature cfg speed dm delta s cid =
     (if c_spawnTime c * speed = 0 then Inl ZeroDivisionError
      else if py_int ((p0 + delta) / (c_spawnTime c * speed)) = 0
      then Inr (s\<lparr>creature_progress := (creature_progress s)(cid \<mapsto> p0 + delta)\<rparr>)
      else creature_tick cfg dm (s\<lparr>creature_progress := (creature_progress s)(cid \<mapsto> p0 + delta)\<rparr>)
             cid c lv (p0 + delta) (c_spawnTime c * speed)
             (py_int ((p0 + delta) / (c_spawnTime c * speed))))"
  using assms by (simp add: advance_creature_def lookup_def Let_def)

lemma advance_creature_skip:
  assumes "is_inactive s cid = Inr True"
  shows "advance_creature cfg speed dm delta s cid = Inr s"
  using assms by (simp add: advance_creature_def)

lemma advance_creature_cases:
  assumes "advance_creature cfg speed dm delta s cid = Inr s'"
  obtains (skip) "is_inactive s cid = Inr True" and "s' = s"
  | (idle) c lv p0 where "is_inactive s cid = Inr False" and "creature_of cfg cid = Inr c"
      and "creature_levels s cid = Some lv" and "creature_progress s cid = Some p0"
      and "c_spawnTime c * speed \<noteq> 0"
      and "py_int ((p0 + delta) / (c_spawnTime c * speed)) = 0"
      and "s' = s\<lparr>creature_progress := (creature_progress s)(cid \<mapsto> p0 + delta)\<rparr>"
  | (tick) c lv p0 pl bonus dl r k where "is_inactive s cid = Inr False"
      and "creature_of cfg cid = Inr c"
      and "creature_levels s cid = Some lv" and "creature_progress s cid = Some p0"
      and "c_spawnTime c * speed \<noteq> 0"
      and "k = py_int ((p0 + delta) / (c_spawnTime c * speed))" and "k \<noteq> 0"
      and "py_nth (c_productionByLevel c) (lv - 1) = Inr pl"
      and "get_production_bonus cfg s (c_produces c) = Inr bonus"
      and "py_nth (c_damageByLevel c) (lv - 1) = Inr dl"
      and "resources s (c_produces c) = Some r"
      and "s' = s\<lparr>creature_progress :=
                    (creature_progress s)(cid \<mapsto> p0 + delta - of_int k * (c_spawnTime c * speed)),
                  resources := (resources s)(c_produces c \<mapsto> r + (pl + bonus) * of_int k),
                  total_damage := total_damage s + dl * dm * of_int k\<rparr>"
proof -
  from assms obtain b where b: "is_inactive s cid = Inr b"
    by (cases "is_inactive s cid") (simp_all add: advance_creature_def)
  show thesis
  proof (cases b)
    case True
    with assms b have "s' = s" by (simp add: advance_creature_skip)
    with True b skip show thesis by simp
  next
    case False
    with b have ina: "is_inactive s cid = Inr False" by simp
    from assms ina obtain c where c: "creature_of cfg cid = Inr c"
      by (cases "creature_of cfg cid") (simp_all add: advance_creature_def)
    from ina obtain lv where lv: "creature_levels s cid = Some lv"
      unfolding is_inactive_False by blast
    from assms ina c lv obtain p0 where p0: "creature_progress s cid = Some p0"
      by (cases "creature_progress s cid") (simp_all add: advance_creature_def lookup_def Let_def)
    let ?t = "c_spawnTime c * speed"
    let ?k = "py_int ((p0 + delta) / ?t)"
    let ?s1 = "s\<lparr>creature_progress := (creature_progress s)(cid \<mapsto> p0 + delta)\<rparr>"
    note eq = advance_creature_active [OF ina c lv p0, of speed dm delta]
    have nz: "?t \<noteq> 0"
    proof
      assume z: "?t = 0"
      have "advance_creature cfg speed dm delta s cid = Inl ZeroDivisionError"
        by (subst eq) (use z in simp)
      with assms show False by simp
    qed
    show thesis
    proof (cases "?k = 0")
      case True
      have "advance_creature cfg speed dm delta s cid = Inr ?s1"
        by (subst eq) (use nz True in simp)
      with assms have "s' = ?s1" by simp
      with ina c lv p0 nz True idle show thesis by blast
    next
      case kz: False
      have "advance_creature cfg speed dm delta s cid = creature_tick cfg dm ?s1 cid c lv (p0 + delta) ?t ?k"
        by (subst eq) (use nz kz in simp)
      with assms have ct: "creature_tick cfg dm ?s1 cid c lv (p0 + delta) ?t ?k = Inr s'" by simp
      have bl: "get_production_bonus cfg ?s1 (c_produces c) = get_production_bonus cfg s (c_produces c)"
        by (rule get_production_bonus_cong) simp
      from creature_tick_Inr [OF ct] obtain pl bonus dl r where
        f: "py_nth (c_productionByLevel c) (lv - 1) = Inr pl"
        "get_production_bonus cfg ?s1 (c_produces c) = Inr bonus"
        "py_nth (c_damageByLevel c) (lv - 1) = Inr dl"
        "resources ?s1 (c_produces c) = Some r"
        and s': "s' = ?s1\<lparr>creature_progress := (creature_progress ?s1)(cid \<mapsto> p0 + delta - of_int ?k * ?t),
              resources := (resources ?s1)(c_produces c \<mapsto> r + (pl + bonus) * of_int ?k),
              total_damage := total_damage ?s1 + dl * dm * of_int ?k\<rparr>"
        by blast
      have s'2: "s' = s\<lparr>creature_progress :=
                    (creature_progress s)(cid \<mapsto> p0 + delta - of_int ?k * ?t),
                  resources := (resources s)(c_produces c \<mapsto> r + (pl + bonus) * of_int ?k),
                  total_damage := total_damage s + dl * dm * of_int ?k\<rparr>"
        by (subst s') simp
      from f(2) bl have b2: "get_production_bonus cfg s (c_produces c) = Inr bonus" by simp
      from f(4) have r2: "resources s (c_produces c) = Some r" by simp
      show thesis
        by (rule tick [OF ina c lv p0 nz refl kz f(1) b2 f(3) r2 s'2])
    qed
  qed
qed

lemma py_int_nonneg: "0 \<le> x \<Longrightarrow> py_int x = \<lfloor>x\<rfloor>"
  by (simp add: py_int_def)

lemma floor_mult_le:
  fixes p t :: rat
  assumes "0 < t"
  shows "of_int \<lfloor>p / t\<rfloor> * t \<le> p"
proof -
  have "of_int \<lfloor>p / t\<rfloor> \<le> p / t" by (rule of_int_floor_le)
  with assms have "of_int \<lfloor>p / t\<rfloor> * t \<le> p / t * t" by (intro mult_right_mono) simp_all
  with assms show ?thesis by simp
qed

lemma production_loop_nonneg:
  assumes wf: "wf_config cfg"
  shows "production_loop cfg s r bids = Inr x \<Longrightarrow> 0 \<le> x"
proof (induction bids)
  case Nil
  then show ?case by simp
next
  case (Cons bid bids)
  from Cons.prems obtain b where b: "boost_of cfg bid = Inr b"
    by (cases "boost_of cfg bid") simp_all
  then have mem: "b \<in> set (boosts cfg)" using boost_of_mem by blast
  show ?case
  proof (cases "b_type b = ''production-bonus'' \<and> b_resource b = Some r")
    case False
    with Cons.prems b have "production_loop cfg s r bids = Inr x" by auto
    then show ?thesis by (rule Cons.IH)
  next
    case True
    from Cons.prems b True obtain lv where lv: "boost_levels s bid = Some lv"
      by (cases "boost_levels s bid") (simp_all add: lookup_def)
    show ?thesis
    proof (cases "lv > 0")
      case False
      with Cons.prems b True lv have "production_loop cfg s r bids = Inr x" by (simp add: lookup_def)
      then show ?thesis by (rule Cons.IH)
    next
      case pos: True
      with Cons.prems b True lv have "py_nth (b_bonusByLevel b) (lv - 1) = Inr x" by (simp add: lookup_def)
      then have "x \<in> set (b_bonusByLevel b)" by (rule py_nth_mem)
      with wf mem True show ?thesis by (simp add: wf_config_def)
    qed
  qed
qed

lemma speed_loop_pos:
  assumes wf: "wf_config cfg"
  shows "speed_loop cfg s bids = Inr x \<Longrightarrow> 0 < x"
proof (induction bids)
  case Nil
  then show ?case by simp
next
  case (Cons bid bids)
  from Cons.prems obtain b where b: "boost_of cfg bid = Inr b"
    by (cases "boost_of cfg bid") simp_all
  then have mem: "b \<in> set (boosts cfg)" using boost_of_mem by blast
  show ?case
  proof (cases "b_type b = ''speed''")
    case False
    with Cons.prems b have "speed_loop cfg s bids = Inr x" by simp
    then show ?thesis by (rule Cons.IH)
  next
    case True
    from Cons.prems b True obtain lv where lv: "boost_levels s bid = Some lv"
      by (cases "boost_levels s bid") (simp_all add: lookup_def)
    show ?thesis
    proof (cases "lv > 0")
      case False
      with Cons.prems b True lv have "speed_loop cfg s bids = Inr x" by (simp add: lookup_def)
      then show ?thesis by (rule Cons.IH)
    next
      case pos: True
      with Cons.prems b True lv obtain y where y: "py_nth (b_bonusByLevel b) (lv - 1) = Inr y" and x: "x = 1 - y"
        by (cases "py_nth (b_bonusByLevel b) (lv - 1)") (auto simp: lookup_def)
      from y have "y \<in> set (b_bonusByLevel b)" by (rule py_nth_mem)
      with wf mem True have "y < 1" by (simp add: wf_config_def)
      with x show ?thesis by simp
    qed
  qed
qed

lemma advance_creature_preserves:
  assumes wf: "wf_config cfg" and sp: "0 < speed" and d: "0 \<le> delta"
    and step: "advance_creature cfg speed dm delta s cid = Inr s'"
    and bal: "balances_nonneg s" and prog: "progress_nonneg s"
  shows "balances_nonneg s' \<and> progress_nonneg s' \<and> creature_levels s' = creature_levels s \<and>
     creature_unlocked s' = creature_unlocked s \<and> boost_levels s' = boost_levels s \<and>
     time_elapsed_ms s' = time_elapsed_ms s"
  using step
proof (cases rule: advance_creature_cases)
  case skip
  with bal prog show ?thesis by simp
next
  case (idle c lv p0)
  from prog idle(4) have "0 \<le> p0" by (simp add: progress_nonneg_def)
  with d have "0 \<le> p0 + delta" by simp
  with prog have "progress_nonneg s'" by (simp add: idle(7) progress_nonneg_def)
  moreover from bal have "balances_nonneg s'" by (simp add: idle(7) balances_nonneg_def)
  ultimately show ?thesis by (simp add: idle(7))
next
  case (tick c lv p0 pl bonus dl r k)
  from tick(2) have mem: "c \<in> set (creatures cfg)" using creature_of_mem by blast
  with wf have t0: "0 < c_spawnTime c" by (simp add: wf_config_def)
  with sp have t: "0 < c_spawnTime c * speed" by simp
  from prog tick(4) have "0 \<le> p0" by (simp add: progress_nonneg_def)
  with d have p: "0 \<le> p0 + delta" by simp
  with t have q: "0 \<le> (p0 + delta) / (c_spawnTime c * speed)" by simp
  then have k: "k = \<lfloor>(p0 + delta) / (c_spawnTime c * speed)\<rfloor>" by (simp add: tick(6) py_int_nonneg)
  with q have k0: "0 \<le> k" by simp
  from k floor_mult_le [OF t, of "p0 + delta"]
  have rem: "0 \<le> p0 + delta - of_int k * (c_spawnTime c * speed)" by simp
  from tick(8) have "pl \<in> set (c_productionByLevel c)" by (rule py_nth_mem)
  with wf mem have pl: "0 \<le> pl" by (simp add: wf_config_def)
  from tick(9) have bonus: "0 \<le> bonus"
    unfolding get_production_bonus_def by (rule production_loop_nonneg [OF wf])
  from bal tick(11) have r: "0 \<le> r" by (simp add: balances_nonneg_def)
  from pl bonus k0 have "0 \<le> (pl + bonus) * of_int k" by simp
  with r have gain: "0 \<le> r + (pl + bonus) * of_int k" by simp
  from prog rem have "progress_nonneg s'" by (simp add: tick(12) progress_nonneg_def)
  moreover from bal gain have "balances_nonneg s'" by (simp add: tick(12) balances_nonneg_def)
  ultimately show ?thesis by (simp add: tick(12))
qed

lemma advance_loop_preserves:
  assumes wf: "wf_config cfg" and sp: "0 < speed" and d: "0 \<le> delta"
  shows "advance_loop cfg speed dm delta s cids = Inr s' \<Longrightarrow> balances_nonneg s \<Longrightarrow> progress_nonneg s \<Longrightarrow>
     balances_nonneg s' \<and> progress_nonneg s' \<and> creature_levels s' = creature_levels s \<and>
     creature_unlocked s' = creature_unlocked s \<and> boost_levels s' = boost_levels s \<and>
     time_elapsed_ms s' = time_elapsed_ms s"
proof (induction cids arbitrary: s)
  case Nil
  then show ?case by simp
next
  case (Cons cid cids)
  from Cons.prems(1) obtain s1 where s1: "advance_creature cfg speed dm delta s cid = Inr s1"
    and rest: "advance_loop cfg speed dm delta s1 cids = Inr s'"
    by (auto simp: rbind_eq_Inr)
  note a = advance_creature_preserves [OF wf sp d s1 Cons.prems(2,3)]
  from Cons.IH [OF rest] a show ?case by simp
qed

lemma advance_preserves:
  assumes wf: "wf_config cfg" and d: "0 \<le> delta" and step: "advance cfg delta s = Inr s'"
    and bal: "balances_nonneg s" and prog: "progress_nonneg s"
  shows "balances_nonneg s' \<and> progress_nonneg s' \<and> creature_levels s' = creature_levels s \<and>
     creature_unlocked s' = creature_unlocked s \<and> boost_levels s' = boost_levels s \<and>
     time_elapsed_ms s' = time_elapsed_ms s + delta"
proof -
  from step obtain speed dm s1 where speed: "get_speed_multiplier cfg s = Inr speed"
    and loop: "advance_loop cfg speed dm delta s (creature_order cfg) = Inr s1"
    and s': "s' = s1\<lparr>time_elapsed_ms := time_elapsed_ms s1 + delta\<rparr>"
    unfolding advance_def rbind_eq_Inr by blast
  from speed have "0 < speed" unfolding get_speed_multiplier_def by (rule speed_loop_pos [OF wf])
  from advance_loop_preserves [OF wf this d loop bal prog]
  show ?thesis by (simp add: s' balances_nonneg_def progress_nonneg_def)
qed

lemma creature_cost_Some:
  assumes "get_creature_upgrade_cost cfg s cid = Inr (Some items)"
  obtains (unlock) c where "creature_of cfg cid = Inr c" and "creature_unlocked s cid = Some False"
      and "c_unlockCost c = Some items"
  | (level) c lv where "creature_of cfg cid = Inr c" and "creature_unlocked s cid = Some True"
      and "creature_levels s cid = Some lv" and "lv < c_maxLevel c"
      and "py_nth (c_upgradeCosts c) (lv - 1) = Inr items"
proof -
  from assms obtain c where c: "creature_of cfg cid = Inr c"
    by (cases "creature_of cfg cid") (simp_all add: get_creature_upgrade_cost_def)
  from assms c obtain u where u: "creature_unlocked s cid = Some u"
    by (cases "creature_unlocked s cid") (simp_all add: get_creature_upgrade_cost_def lookup_def)
  show thesis
  proof (cases u)
    case False
    with assms c u have "c_unlockCost c = Some items"
      by (simp add: get_creature_upgrade_cost_def lookup_def)
    with c u False unlock show thesis by simp
  next
    case True
    with assms c u obtain lv where lv: "creature_levels s cid = Some lv"
      by (cases "creature_levels s cid") (simp_all add: get_creature_upgrade_cost_def lookup_def)
    from assms c u True lv have lt: "lv < c_maxLevel c"
      by (cases "lv < c_maxLevel c") (simp_all add: get_creature_upgrade_cost_def lookup_def)
    with assms c u True lv have "py_nth (c_upgradeCosts c) (lv - 1) = Inr items"
      by (cases "py_nth (c_upgradeCosts c) (lv - 1)") (simp_all add: get_creature_upgrade_cost_def lookup_def)
    with c u True lv lt level show thesis by simp
  qed
qed

lemma boost_cost_Some:
  assumes "get_boost_upgrade_cost cfg s bid = Inr (Some items)"
  obtains b lv where "boost_of cfg bid = Inr b" and "boost_levels s bid = Some lv"
    and "lv < b_maxLevel b" and "py_nth (b_costs b) lv = Inr items"
proof -
  from assms obtain b where b: "boost_of cfg bid = Inr b"
    by (cases "boost_of cfg bid") (simp_all add: get_boost_upgrade_cost_def)
  from assms b obtain lv where lv: "boost_levels s bid = Some lv"
    by (cases "boost_levels s bid") (simp_all add: get_boost_upgrade_cost_def lookup_def)
  from assms b lv have lt: "lv < b_maxLevel b"
    by (cases "lv < b_maxLevel b") (simp_all add: get_boost_upgrade_cost_def lookup_def)
  with assms b lv have "py_nth (b_costs b) lv = Inr items"
    by (cases "py_nth (b_costs b) lv") (simp_all add: get_boost_upgrade_cost_def lookup_def)
  with b lv lt that show thesis by simp
qed

lemma upgrade_creature_cases:
  assumes "upgrade_creature cfg s cid = Inr (s', ok)"
  obtains (rejected) "s' = s" and "\<not> ok"
  | (bought) items s1 where "get_creature_upgrade_cost cfg s cid = Inr (Some items)"
      and "can_afford s (Some items)" and "spend s items = Inr s1" and "ok"
      and "creature_unlocked s cid = Some False \<longrightarrow>
             s' = s1\<lparr>creature_levels := (creature_levels s)(cid \<mapsto> 1),
                      creature_unlocked := (creature_unlocked s)(cid \<mapsto> True)\<rparr>"
      and "creature_unlocked s cid = Some True \<longrightarrow>
             (\<exists>lv. creature_levels s cid = Some lv \<and>
                   s' = s1\<lparr>creature_levels := (creature_levels s)(cid \<mapsto> lv + 1)\<rparr>)"
proof -
  from assms obtain cost where cost: "get_creature_upgrade_cost cfg s cid = Inr cost"
    by (cases "get_creature_upgrade_cost cfg s cid") (simp_all add: upgrade_creature_def)
  show thesis
  proof (cases "cost = None \<or> \<not> can_afford s cost")
    case True
    from upgrade_creature_rejected [OF cost True] assms rejected show thesis by simp
  next
    case False
    then obtain items where items: "cost = Some items" and aff: "can_afford s (Some items)" by auto
    from assms cost items aff obtain s1 where s1: "spend s items = Inr s1"
      by (cases "spend s items") (simp_all add: upgrade_creature_def)
    note fr = spend_frame [OF s1]
    from cost_unlocked_known [OF cost] obtain u where u: "creature_unlocked s cid = Some u" by blast
    have a: "creature_unlocked s cid = Some False \<longrightarrow>
             s' = s1\<lparr>creature_levels := (creature_levels s)(cid \<mapsto> 1),
                      creature_unlocked := (creature_unlocked s)(cid \<mapsto> True)\<rparr>"
      using assms cost items aff s1 fr by (auto simp: upgrade_creature_def lookup_def)
    have b: "creature_unlocked s cid = Some True \<longrightarrow>
             (\<exists>lv. creature_levels s cid = Some lv \<and>
                   s' = s1\<lparr>creature_levels := (creature_levels s)(cid \<mapsto> lv + 1)\<rparr>)"
    proof
      assume t: "creature_unlocked s cid = Some True"
      from cost_level_known [OF cost t] obtain lv where lv: "creature_levels s cid = Some lv" by blast
      from assms cost items aff s1 fr t lv
      have "s' = s1\<lparr>creature_levels := (creature_levels s)(cid \<mapsto> lv + 1)\<rparr>"
        by (simp add: upgrade_creature_def lookup_def)
      with lv show "\<exists>lv. creature_levels s cid = Some lv \<and>
                   s' = s1\<lparr>creature_levels := (creature_levels s)(cid \<mapsto> lv + 1)\<rparr>" by blast
    qed
    have "ok" using assms cost items aff s1 fr u
      by (cases u; cases "creature_levels s cid") (simp_all add: upgrade_creature_def lookup_def)
    with cost items aff s1 a b bought show thesis by simp
  qed
qed

lemma upgrade_boost_cases:
  assumes "upgrade_boost cfg s bid = Inr (s', ok)"
  obtains (rejected) "s' = s" and "\<not> ok"
  | (bought) items s1 lv where "get_boost_upgrade_cost cfg s bid = Inr (Some items)"
      and "can_afford s (Some items)" and "spend s items = Inr s1" and "ok"
      and "boost_levels s bid = Some lv"
      and "s' = s1\<lparr>boost_levels := (boost_levels s)(bid \<mapsto> lv + 1)\<rparr>"
proof -
  from assms obtain cost where cost: "get_boost_upgrade_cost cfg s bid = Inr cost"
    by (cases "get_boost_upgrade_cost cfg s bid") (simp_all add: upgrade_boost_def)
  show thesis
  proof (cases "cost = None \<or> \<not> can_afford s cost")
    case True
    from upgrade_boost_rejected [OF cost True] assms rejected show thesis by simp
  next
    case False
    then obtain items where items: "cost = Some items" and aff: "can_afford s (Some items)" by auto
    from assms cost items aff obtain s1 where s1: "spend s items = Inr s1"
      by (cases "spend s items") (simp_all add: upgrade_boost_def)
    note fr = spend_frame [OF s1]
    from boost_cost_level_known [OF cost] obtain lv where lv: "boost_levels s bid = Some lv" by blast
    from assms cost items aff s1 fr lv
    have "s' = s1\<lparr>boost_levels := (boost_levels s)(bid \<mapsto> lv + 1)\<rparr> \<and> ok"
      by (simp add: upgrade_boost_def lookup_def)
    with cost items aff s1 lv bought show thesis by simp
  qed
qed

lemma spend_nonneg:
  "spend s items = Inr s' \<Longrightarrow> distinct (map fst items) \<Longrightarrow> can_afford s (Some items) \<Longrightarrow>
   balances_nonneg s \<Longrightarrow> balances_nonneg s'"
proof (induction items arbitrary: s)
  case Nil
  then show ?case by simp
next
  case (Cons a items)
  obtain r amt where a: "a = (r, amt)" by (cases a)
  from Cons.prems(1) obtain x where x: "resources s r = Some x"
    and sp: "spend (s\<lparr>resources := (resources s)(r \<mapsto> x - amt)\<rparr>) items = Inr s'"
    by (auto simp: a rbind_eq_Inr)
  let ?s1 = "s\<lparr>resources := (resources s)(r \<mapsto> x - amt)\<rparr>"
  from Cons.prems(2) have d: "distinct (map fst items)" and nin: "r \<notin> fst ` set items"
    by (auto simp: a)
  from Cons.prems(3) x have ge: "amt \<le> x"
    and rest: "list_all (\<lambda>(r, amt). amt \<le> (case resources s r of None \<Rightarrow> 0 | Some x \<Rightarrow> x)) items"
    by (simp_all add: can_afford_def a)
  have "list_all (\<lambda>(q, amt). amt \<le> (case resources ?s1 q of None \<Rightarrow> 0 | Some x \<Rightarrow> x)) items"
    unfolding list_all_iff
  proof
    fix e assume e: "e \<in> set items"
    obtain q b where qb: "e = (q, b)" by (cases e)
    from e nin qb have "q \<noteq> r" by force
    moreover from rest e qb have "b \<le> (case resources s q of None \<Rightarrow> 0 | Some x \<Rightarrow> x)"
      by (auto simp: list_all_iff)
    ultimately show "case e of (q, amt) \<Rightarrow> amt \<le> (case resources ?s1 q of None \<Rightarrow> 0 | Some x \<Rightarrow> x)"
      by (simp add: qb)
  qed
  then have aff: "can_afford ?s1 (Some items)" by (simp add: can_afford_def)
  from Cons.prems(4) ge have bal: "balances_nonneg ?s1" by (simp add: balances_nonneg_def)
  from Cons.IH [OF sp d aff bal] show ?case .
qed

lemma economy_invariant_parts:
  "economy_invariant cfg s \<longleftrightarrow>
     balances_nonneg s \<and> levels_bounded cfg s \<and> boosts_bounded cfg s \<and> locked_at_zero s"
  by (simp add: economy_invariant_def balances_nonneg_def levels_bounded_def boosts_bounded_def
      locked_at_zero_def)

lemma cost_distinct_creature:
  assumes wf: "wf_config cfg" and c: "get_creature_upgrade_cost cfg s cid = Inr (Some items)"
  shows "distinct (map fst items)"
  using c
proof (cases rule: creature_cost_Some)
  case (unlock c)
  from unlock(1) have "c \<in> set (creatures cfg)" using creature_of_mem by blast
  with wf unlock(3) show ?thesis by (simp add: wf_config_def)
next
  case (level c lv)
  from level(1) have "c \<in> set (creatures cfg)" using creature_of_mem by blast
  moreover from level(5) have "items \<in> set (c_upgradeCosts c)" by (rule py_nth_mem)
  ultimately show ?thesis using wf by (simp add: wf_config_def)
qed

lemma cost_distinct_boost:
  assumes wf: "wf_config cfg" and c: "get_boost_upgrade_cost cfg s bid = Inr (Some items)"
  shows "distinct (map fst items)"
  using c
proof (cases rule: boost_cost_Some)
  case (1 b lv)
  from 1(1) have "b \<in> set (boosts cfg)" using boost_of_mem by blast
  moreover from 1(4) have "items \<in> set (b_costs b)" by (rule py_nth_mem)
  ultimately show ?thesis using wf by (simp add: wf_config_def)
qed

lemma upgrade_creature_preserves:
  assumes wf: "wf_config cfg" and step: "upgrade_creature cfg s cid = Inr (s', ok)"
    and inv: "economy_invariant cfg s" and prog: "progress_nonneg s"
  shows "economy_invariant cfg s' \<and> progress_nonneg s'"
  using step
proof (cases rule: upgrade_creature_cases)
  case rejected
  with inv prog show ?thesis by simp
next
  case (bought items s1)
  note fr = spend_frame [OF bought(3)]
  from inv have bal: "balances_nonneg s" and lb: "levels_bounded cfg s"
    and bb: "boosts_bounded cfg s" and lz: "locked_at_zero s"
    by (simp_all add: economy_invariant_parts)
  from spend_nonneg [OF bought(3) cost_distinct_creature [OF wf bought(1)] bought(2) bal]
  have bal1: "balances_nonneg s1" .
  from bought(1) show ?thesis
  proof (cases rule: creature_cost_Some)
    case (unlock c)
    from unlock(1) have "c \<in> set (creatures cfg)" using creature_of_mem by blast
    with wf have mx: "1 \<le> c_maxLevel c" by (simp add: wf_config_def)
    from bought(5) unlock(2)
    have s': "s' = s1\<lparr>creature_levels := (creature_levels s)(cid \<mapsto> 1),
                      creature_unlocked := (creature_unlocked s)(cid \<mapsto> True)\<rparr>" by simp
    have "balances_nonneg s'" using bal1 by (simp add: s' balances_nonneg_def)
    moreover have "levels_bounded cfg s'"
      using lb mx unlock(1) by (auto simp: s' levels_bounded_def)
    moreover have "boosts_bounded cfg s'" using bb fr by (simp add: s' boosts_bounded_def)
    moreover have "locked_at_zero s'" using lz by (simp add: s' locked_at_zero_def)
    moreover have "progress_nonneg s'" using prog fr by (simp add: s' progress_nonneg_def)
    ultimately show ?thesis by (simp add: economy_invariant_parts)
  next
    case (level c lv)
    from bought(6) level(2,3)
    have s': "s' = s1\<lparr>creature_levels := (creature_levels s)(cid \<mapsto> lv + 1)\<rparr>" by simp
    have "balances_nonneg s'" using bal1 by (simp add: s' balances_nonneg_def)
    moreover have "levels_bounded cfg s'"
      using lb level(1,4) by (auto simp: s' levels_bounded_def)
    moreover have "boosts_bounded cfg s'" using bb fr by (simp add: s' boosts_bounded_def)
    moreover have "locked_at_zero s'" using lz level(2) fr by (simp add: s' locked_at_zero_def)
    moreover have "progress_nonneg s'" using prog fr by (simp add: s' progress_nonneg_def)
    ultimately show ?thesis by (simp add: economy_invariant_parts)
  qed
qed

lemma upgrade_boost_preserves:
  assumes wf: "wf_config cfg" and step: "upgrade_boost cfg s bid = Inr (s', ok)"
    and inv: "economy_invariant cfg s" and prog: "progress_nonneg s"
  shows "economy_invariant cfg s' \<and> progress_nonneg s'"
  using step
proof (cases rule: upgrade_boost_cases)
  case rejected
  with inv prog show ?thesis by simp
next
  case (bought items s1 lv)
  note fr = spend_frame [OF bought(3)]
  from inv have bal: "balances_nonneg s" and lb: "levels_bounded cfg s"
    and bb: "boosts_bounded cfg s" and lz: "locked_at_zero s"
    by (simp_all add: economy_invariant_parts)
  from spend_nonneg [OF bought(3) cost_distinct_boost [OF wf bought(1)] bought(2) bal]
  have bal1: "balances_nonneg s1" .
  from bought(1) obtain b lv' where b: "boost_of cfg bid = Inr b" and "boost_levels s bid = Some lv'"
    and "lv' < b_maxLevel b" by (rule boost_cost_Some)
  with bought(5) have lt: "lv < b_maxLevel b" by simp
  note s' = bought(6)
  have "balances_nonneg s'" using bal1 by (simp add: s' balances_nonneg_def)
  moreover have "levels_bounded cfg s'" using lb fr by (simp add: s' levels_bounded_def)
  moreover have "boosts_bounded cfg s'" using bb b lt by (auto simp: s' boosts_bounded_def)
  moreover have "locked_at_zero s'" using lz fr by (simp add: s' locked_at_zero_def)
  moreover have "progress_nonneg s'" using prog fr by (simp add: s' progress_nonneg_def)
  ultimately show ?thesis by (simp add: economy_invariant_parts)
qed

lemma reachable_invariant_strong:
  assumes wf: "wf_config cfg"
  shows "reachable cfg s \<Longrightarrow> economy_invariant cfg s \<and> progress_nonneg s"
proof (induction rule: reachable.induct)
  case reach_init
  from init_invariant [OF wf] show ?case .
next
  case (reach_advance s delta_ms s')
  then have inv: "economy_invariant cfg s" and prog: "progress_nonneg s" by simp_all
  from inv have bal: "balances_nonneg s" by (simp add: economy_invariant_parts)
  from advance_preserves [OF wf reach_advance(2,3) bal prog] inv
  show ?case by (simp add: economy_invariant_parts levels_bounded_def boosts_bounded_def locked_at_zero_def)
next
  case (reach_upgrade_creature s cid s' ok)
  then show ?case using upgrade_creature_preserves [OF wf] by blast
next
  case (reach_upgrade_boost s bid s' ok)
  then show ?case using upgrade_boost_preserves [OF wf] by blast
qed

text \<open>
  C3. In every state reachable from the initial state of a well-formed configuration by any
  sequence of \<open>advance\<close> (non-negative step), \<open>upgrade_creature\<close> and \<open>upgrade_boost\<close>
  calls: every resource balance is at least 0, every unit level is at most the unit's
  \<open>maxLevel\<close>, every boost level is at most the boost's \<open>maxLevel\<close>, and a unit whose
  unlocked flag is false has level 0.
\<close>

theorem reachable_economy_invariant:
  "wf_config cfg \<Longrightarrow> reachable cfg s \<Longrightarrow> economy_invariant cfg s"
  using reachable_invariant_strong by blast

lemma wf_EVENT_CONFIG: "wf_config EVENT_CONFIG"
  by (simp add: wf_config_def config_defs)

lemma first_minute_code:
  "(case advance EVENT_CONFIG 60000 (GameSim EVENT_CONFIG) of
      Inl e \<Rightarrow> False
    | Inr s1 \<Rightarrow> resources s1 ''sapphires'' = Some 60 \<and> total_damage s1 = 300 \<and>
        creature_unlocked s1 ''fiona'' = Some True \<and> creature_levels s1 ''fiona'' = Some 1)"
  by code_simp

lemma first_minute:
  "\<exists>s1. advance EVENT_CONFIG 60000 (GameSim EVENT_CONFIG) = Inr s1 \<and>
        resources s1 ''sapphires'' = Some 60 \<and> total_damage s1 = 300 \<and>
        creature_unlocked s1 ''fiona'' = Some True \<and> creature_levels s1 ''fiona'' = Some 1"
  using first_minute_code by (cases "advance EVENT_CONFIG 60000 (GameSim EVENT_CONFIG)") simp_all

lemma fiona_cost_level1:
  assumes "creature_unlocked s ''fiona'' = Some True" and "creature_levels s ''fiona'' = Some 1"
  shows "get_creature_upgrade_cost EVENT_CONFIG s ''fiona'' = Inr (Some [(''sapphires'', 5)])"
  using assms
  by (simp add: get_creature_upgrade_cost_def creature_of_def lookup_def py_nth_def config_defs)

theorem reachable_economy_invariant_witness:
  "wf_config EVENT_CONFIG \<and>
   (\<exists>s1 s2. advance EVENT_CONFIG 60000 (GameSim EVENT_CONFIG) = Inr s1 \<and>
      upgrade_creature EVENT_CONFIG s1 ''fiona'' = Inr (s2, True) \<and>
      reachable EVENT_CONFIG s2 \<and> economy_invariant EVENT_CONFIG s2)"
proof -
  from first_minute obtain s1 where
    adv: "advance EVENT_CONFIG 60000 (GameSim EVENT_CONFIG) = Inr s1"
    and res: "resources s1 ''sapphires'' = Some 60"
    and unl: "creature_unlocked s1 ''fiona'' = Some True"
    and lv: "creature_levels s1 ''fiona'' = Some 1"
    by blast
  note cost = fiona_cost_level1 [OF unl lv]
  have aff: "can_afford s1 (Some [(''sapphires'', 5)])" using res by (simp add: can_afford_def)
  have "\<exists>s2. upgrade_creature EVENT_CONFIG s1 ''fiona'' = Inr (s2, True) \<and>
      creature_bought s1 [(''sapphires'', 5)] ''fiona'' s2"
    using res by (intro upgrade_creature_applied [OF cost aff]) auto
  then obtain s2 where up: "upgrade_creature EVENT_CONFIG s1 ''fiona'' = Inr (s2, True)" by blast
  have r1: "reachable EVENT_CONFIG s1"
    by (rule reach_advance [OF reach_init _ adv]) simp
  have r2: "reachable EVENT_CONFIG s2"
    by (rule reach_upgrade_creature [OF r1 up])
  from reachable_economy_invariant [OF wf_EVENT_CONFIG r2] adv up r2 wf_EVENT_CONFIG
  show ?thesis by blast
qed

lemma val_Inr [simp]: "val (Inr x) = x"
  by (simp add: val_def)







































lemma rbind_cong [fundef_cong]:
  "m = m' \<Longrightarrow> (\<And>x. m' = Inr x \<Longrightarrow> f x = f' x) \<Longrightarrow> rbind m f = rbind m' f'"
  by (cases m') (simp_all add: rbind_def)

lemma advance_creature_time:
  "advance_creature cfg speed dm delta s cid = Inr s' \<Longrightarrow> time_elapsed_ms s' = time_elapsed_ms s"
  by (erule advance_creature_cases) simp_all

lemma advance_loop_time:
  "advance_loop cfg speed dm delta s cids = Inr s' \<Longrightarrow> time_elapsed_ms s' = time_elapsed_ms s"
proof (induction cids arbitrary: s)
  case Nil
  then show ?case by simp
next
  case (Cons cid cids)
  from Cons.prems obtain s1 where s1: "advance_creature cfg speed dm delta s cid = Inr s1"
    and rest: "advance_loop cfg speed dm delta s1 cids = Inr s'"
    by (auto simp: rbind_eq_Inr)
  from Cons.IH [OF rest] advance_creature_time [OF s1] show ?case by simp
qed

lemma advance_time:
  assumes "advance cfg delta s = Inr s'"
  shows "time_elapsed_ms s' = time_elapsed_ms s + delta"
proof -
  from assms obtain speed dm s1 where "advance_loop cfg speed dm delta s (creature_order cfg) = Inr s1"
    and "s' = s1\<lparr>time_elapsed_ms := time_elapsed_ms s1 + delta\<rparr>"
    unfolding advance_def rbind_eq_Inr by blast
  with advance_loop_time show ?thesis by fastforce
qed

lemma upgrade_creature_time:
  assumes "upgrade_creature cfg s cid = Inr (s', ok)"
  shows "time_elapsed_ms s' = time_elapsed_ms s"
  using assms
proof (cases rule: upgrade_creature_cases)
  case rejected
  then show ?thesis by simp
next
  case (bought items s1)
  from cost_unlocked_known [OF bought(1)] obtain u where "creature_unlocked s cid = Some u" by blast
  with bought(5,6) spend_frame [OF bought(3)] show ?thesis by (cases u) auto
qed

lemma upgrade_boost_time:
  assumes "upgrade_boost cfg s bid = Inr (s', ok)"
  shows "time_elapsed_ms s' = time_elapsed_ms s"
  using assms
proof (cases rule: upgrade_boost_cases)
  case rejected
  then show ?thesis by simp
next
  case (bought items s1 lv)
  with spend_frame [OF bought(3)] show ?thesis by simp
qed

lemma purchase_time:
  "purchase cfg s k = Inr r \<Longrightarrow> time_elapsed_ms (fst r) = time_elapsed_ms s"
  by (cases r) (auto simp: purchase_def upgrade_creature_time upgrade_boost_time split: if_splits)

lemma decision_tick_cases:
  assumes "decision_tick cfg pm n st = Inr st'"
  obtains (idle) best_pos s2 where "select_loop cfg (fst st) (snd st) pm (n, None) = Inr (best_pos, None)"
      and "advance cfg STEP_MS (fst st) = Inr s2" and "st' = (s2, snd st)"
  | (buy) best_pos k s1 ok s2 where "select_loop cfg (fst st) (snd st) pm (n, None) = Inr (best_pos, Some k)"
      and "purchase cfg (fst st) k = Inr (s1, ok)"
      and "advance cfg STEP_MS s1 = Inr s2" and "st' = (s2, (snd st)(k := snd st k + 1))"
proof -
  from assms obtain best where best: "select_loop cfg (fst st) (snd st) pm (n, None) = Inr best"
    by (cases "select_loop cfg (fst st) (snd st) pm (n, None)") (simp_all add: decision_tick_def)
  obtain best_pos best_key where bp: "best = (best_pos, best_key)" by (cases best)
  show thesis
  proof (cases best_key)
    case None
    with assms best bp obtain s2 where "advance cfg STEP_MS (fst st) = Inr s2" and "st' = (s2, snd st)"
      by (cases "advance cfg STEP_MS (fst st)") (auto simp: decision_tick_def)
    with best bp None idle show thesis by simp
  next
    case (Some k)
    with assms best bp obtain r where r: "purchase cfg (fst st) k = Inr r"
      by (cases "purchase cfg (fst st) k") (simp_all add: decision_tick_def)
    obtain s1 ok where r2: "r = (s1, ok)" by (cases r)
    from assms best bp Some r r2 obtain s2 where "advance cfg STEP_MS s1 = Inr s2"
      and "st' = (s2, (snd st)(k := snd st k + 1))"
      by (cases "advance cfg STEP_MS s1") (auto simp: decision_tick_def)
    with best bp Some r r2 buy show thesis by simp
  qed
qed

lemma decision_tick_time:
  assumes "decision_tick cfg pm n st = Inr st'"
  shows "time_elapsed_ms (fst st') = time_elapsed_ms (fst st) + STEP_MS"
  using assms
proof (cases rule: decision_tick_cases)
  case (idle best_pos s2)
  with advance_time [OF idle(2)] show ?thesis by simp
next
  case (buy best_pos k s1 ok s2)
  from purchase_time [OF buy(2)] advance_time [OF buy(3)] buy(4) show ?thesis by simp
qed

text \<open>
  The loop \<^verbatim>\<open>while not sim.is_done(): ...\<close>. Each pass adds \<^verbatim>\<open>STEP_MS\<close> to the elapsed
  time, so the number of passes left, ceiling ((duration - elapsed) / STEP_MS), decreases.
\<close>

function  sim_loop ::
  "config \<Rightarrow> (key \<times> nat list) list \<Rightarrow> nat \<Rightarrow> sim \<times> (key \<Rightarrow> nat) \<Rightarrow> sim result" where
  "sim_loop cfg pos_map n st =
     (if is_done cfg (fst st) then Inr (fst st)
      else rbind (decision_tick cfg pos_map n st) (sim_loop cfg pos_map n))"
  by pat_completeness auto

termination
proof (relation "measure (\<lambda>(cfg, pos_map, n, st).
    nat \<lceil>(duration cfg - time_elapsed_ms (fst st)) / STEP_MS\<rceil>)")
  show "wf (measure (\<lambda>(cfg, pos_map, n, st).
    nat \<lceil>(duration cfg - time_elapsed_ms (fst st)) / STEP_MS\<rceil>))"
    by simp
next
  fix cfg :: config and pos_map :: "(key \<times> nat list) list" and n :: nat
    and st st' :: "sim \<times> (key \<Rightarrow> nat)"
  assume nd: "\<not> is_done cfg (fst st)" and tick: "decision_tick cfg pos_map n st = Inr st'"
  let ?r = "(duration cfg - time_elapsed_ms (fst st)) / STEP_MS"
  from decision_tick_time [OF tick]
  have "(duration cfg - time_elapsed_ms (fst st')) / STEP_MS = ?r - 1"
    by (simp add: STEP_MS_def field_simps)
  moreover from nd have "0 < ?r" by (simp add: is_done_def STEP_MS_def)
  then have "0 < \<lceil>?r\<rceil>" by simp
  ultimately have "nat \<lceil>(duration cfg - time_elapsed_ms (fst st')) / STEP_MS\<rceil> < nat \<lceil>?r\<rceil>"
    by simp
  then show "((cfg, pos_map, n, st'), (cfg, pos_map, n, st)) \<in> measure (\<lambda>(cfg, pos_map, n, st).
    nat \<lceil>(duration cfg - time_elapsed_ms (fst st)) / STEP_MS\<rceil>)"
    by simp
qed

definition  simulate :: "config \<Rightarrow> step list \<Rightarrow> rat result" where
  "simulate cfg priority =
     rbind (sim_loop cfg (build_pos_map priority) (length priority) (GameSim cfg, \<lambda>k. 0))
       (\<lambda>s. Inr (total_damage s))"

lemma build_pos_map_snoc:
  "build_pos_map (xs @ [x]) = pos_map_add (build_pos_map xs) (key_of x) (length xs)"
  by (simp add: build_pos_map_def enumerate_append_eq)

lemma pos_map_add_keys:
  "fst ` set (pos_map_add pm k p) = insert k (fst ` set pm)"
  by (induction pm k p rule: pos_map_add.induct) auto

lemma pos_map_add_distinct_keys:
  "distinct (map fst pm) \<Longrightarrow> distinct (map fst (pos_map_add pm k p))"
proof (induction pm k p rule: pos_map_add.induct)
  case (1 k pos)
  then show ?case by simp
next
  case (2 k' ps rest k pos)
  show ?case
  proof (cases "k' = k")
    case True
    with 2 show ?thesis by simp
  next
    case False
    with 2 have "distinct (map fst (pos_map_add rest k pos))" and "k' \<notin> fst ` set rest" by auto
    moreover with False have "k' \<notin> fst ` set (pos_map_add rest k pos)"
      by (simp add: pos_map_add_keys)
    ultimately show ?thesis using False by simp
  qed
qed



lemma build_pos_map_distinct_keys: "distinct (map fst (build_pos_map xs))"
proof (induction xs rule: rev_induct)
  case Nil
  then show ?case by (simp add: build_pos_map_def)
next
  case (snoc x xs)
  then show ?case unfolding build_pos_map_snoc by (rule pos_map_add_distinct_keys)
qed















lemma logged_purchase_purchase:
  assumes "logged_purchase cfg names s k = Inr (r, entry)"
  shows "purchase cfg s k = Inr r"
proof -
  from assms obtain name where name: "names k = Some name"
    by (cases "names k") (simp_all add: logged_purchase_def lookup_def)
  show ?thesis
  proof (cases "fst k = ''creature''")
    case True
    with assms name obtain r' where r': "upgrade_creature cfg s (snd k) = Inr r'"
      by (cases "upgrade_creature cfg s (snd k)") (simp_all add: logged_purchase_def lookup_def)
    with assms name True have "r' = r"
      by (cases "creature_levels (fst r') (snd k)") (simp_all add: logged_purchase_def lookup_def)
    with r' True show ?thesis by (simp add: purchase_def)
  next
    case False
    with assms name obtain r' where r': "upgrade_boost cfg s (snd k) = Inr r'"
      by (cases "upgrade_boost cfg s (snd k)") (simp_all add: logged_purchase_def lookup_def)
    with assms name False have "r' = r"
      by (cases "boost_levels (fst r') (snd k)") (simp_all add: logged_purchase_def lookup_def)
    with r' False show ?thesis by (simp add: purchase_def)
  qed
qed

lemma decision_tick_log_same:
  assumes "decision_tick_log cfg pm names n (st, lg) = Inr (st', lg')"
  shows "decision_tick cfg pm n st = Inr st'"
proof -
  from assms obtain best where best: "select_loop cfg (fst st) (snd st) pm (n, None) = Inr best"
    by (cases "select_loop cfg (fst st) (snd st) pm (n, None)") (simp_all add: decision_tick_log_def)
  show ?thesis
  proof (cases "snd best")
    case None
    with assms best obtain s2 where "advance cfg STEP_MS (fst st) = Inr s2" and "st' = (s2, snd st)"
      by (cases "advance cfg STEP_MS (fst st)") (auto simp: decision_tick_log_def)
    with best None show ?thesis by (simp add: decision_tick_def)
  next
    case (Some k)
    with assms best obtain r where r: "logged_purchase cfg names (fst st) k = Inr r"
      by (cases "logged_purchase cfg names (fst st) k") (simp_all add: decision_tick_log_def)
    obtain r1 entry where r1: "r = (r1, entry)" by (cases r)
    from logged_purchase_purchase r r1 have p: "purchase cfg (fst st) k = Inr r1" by simp
    from assms best Some r r1 obtain s2 where "advance cfg STEP_MS (fst r1) = Inr s2"
      and "st' = (s2, (snd st)(k := snd st k + 1))"
      by (cases "advance cfg STEP_MS (fst r1)") (auto simp: decision_tick_log_def)
    with best Some p show ?thesis by (simp add: decision_tick_def)
  qed
qed

lemma decision_tick_log_time:
  assumes "decision_tick_log cfg pm names n stl = Inr stl'"
  shows "time_elapsed_ms (fst (fst stl')) = time_elapsed_ms (fst (fst stl)) + STEP_MS"
proof -
  from assms have "decision_tick_log cfg pm names n (fst stl, snd stl) = Inr (fst stl', snd stl')" by simp
  from decision_tick_time [OF decision_tick_log_same [OF this]] show ?thesis .
qed

function  sim_loop_log ::
  "config \<Rightarrow> (key \<times> nat list) list \<Rightarrow> (key \<rightharpoonup> string) \<Rightarrow> nat \<Rightarrow>
   (sim \<times> (key \<Rightarrow> nat)) \<times> log_entry list \<Rightarrow> (sim \<times> log_entry list) result" where
  "sim_loop_log cfg pos_map names n stl =
     (if is_done cfg (fst (fst stl)) then Inr (fst (fst stl), snd stl)
      else rbind (decision_tick_log cfg pos_map names n stl) (sim_loop_log cfg pos_map names n))"
  by pat_completeness auto

termination
proof (relation "measure (\<lambda>(cfg, pos_map, names, n, stl).
    nat \<lceil>(duration cfg - time_elapsed_ms (fst (fst stl))) / STEP_MS\<rceil>)")
  show "wf (measure (\<lambda>(cfg, pos_map, names, n, stl).
    nat \<lceil>(duration cfg - time_elapsed_ms (fst (fst stl))) / STEP_MS\<rceil>))"
    by simp
next
  fix cfg :: config and pos_map :: "(key \<times> nat list) list" and names :: "key \<rightharpoonup> string"
    and n :: nat and stl stl' :: "(sim \<times> (key \<Rightarrow> nat)) \<times> log_entry list"
  assume nd: "\<not> is_done cfg (fst (fst stl))"
    and tick: "decision_tick_log cfg pos_map names n stl = Inr stl'"
  let ?r = "(duration cfg - time_elapsed_ms (fst (fst stl))) / STEP_MS"
  from decision_tick_log_time [OF tick]
  have "(duration cfg - time_elapsed_ms (fst (fst stl'))) / STEP_MS = ?r - 1"
    by (simp add: STEP_MS_def field_simps)
  moreover from nd have "0 < ?r" by (simp add: is_done_def STEP_MS_def)
  then have "0 < \<lceil>?r\<rceil>" by simp
  ultimately have "nat \<lceil>(duration cfg - time_elapsed_ms (fst (fst stl'))) / STEP_MS\<rceil> < nat \<lceil>?r\<rceil>"
    by simp
  then show "((cfg, pos_map, names, n, stl'), (cfg, pos_map, names, n, stl)) \<in>
    measure (\<lambda>(cfg, pos_map, names, n, stl).
      nat \<lceil>(duration cfg - time_elapsed_ms (fst (fst stl))) / STEP_MS\<rceil>)"
    by simp
qed

definition  simulate_with_log :: "config \<Rightarrow> step list \<Rightarrow> (rat \<times> log_entry list \<times> sim) result" where
  "simulate_with_log cfg priority =
     rbind (sim_loop_log cfg (build_pos_map priority) (name_map priority) (length priority)
              ((GameSim cfg, \<lambda>k. 0), []))
       (\<lambda>r. Inr (total_damage (fst r), snd r, fst r))"

lemma sim_loop_log_same:
  "sim_loop_log cfg pm names n stl = Inr r \<Longrightarrow> sim_loop cfg pm n (fst stl) = Inr (fst r)"
proof (induction cfg pm names n stl rule: sim_loop_log.induct)
  case (1 cfg pm names n stl)
  show ?case
  proof (cases "is_done cfg (fst (fst stl))")
    case True
    with "1.prems" show ?thesis by auto
  next
    case False
    with "1.prems" obtain stl' where t: "decision_tick_log cfg pm names n stl = Inr stl'"
      and r: "sim_loop_log cfg pm names n stl' = Inr r"
      by (cases "decision_tick_log cfg pm names n stl") simp_all
    from t have "decision_tick_log cfg pm names n (fst stl, snd stl) = Inr (fst stl', snd stl')" by simp
    from decision_tick_log_same [OF this] have "decision_tick cfg pm n (fst stl) = Inr (fst stl')" .
    with False "1.IH" [OF False t r] show ?thesis by simp
  qed
qed

lemma simulate_with_log_same:
  assumes "simulate_with_log cfg priority = Inr (dmg, lg, s)"
  shows "simulate cfg priority = Inr dmg"
proof -
  from assms obtain r where r: "sim_loop_log cfg (build_pos_map priority) (name_map priority) (length priority)
              ((GameSim cfg, \<lambda>k. 0), []) = Inr r" and d: "dmg = total_damage (fst r)"
    by (cases "sim_loop_log cfg (build_pos_map priority) (name_map priority) (length priority)
              ((GameSim cfg, \<lambda>k. 0), [])") (auto simp: simulate_with_log_def)
  from sim_loop_log_same [OF r] d show ?thesis by (simp add: simulate_def)
qed






section \<open>The search engine (optimizer.py)\<close>

subsection \<open>Perturbation operators\<close>

text \<open>
  Python's \<^verbatim>\<open>random\<close> module is the source of the values below; it is modelled by passing
  the values it returns. One \<open>draw\<close> holds what one annealing iteration reads: \<^verbatim>\<open>r\<close>, the
  indices \<^verbatim>\<open>a\<close>, \<^verbatim>\<open>b\<close> and \<^verbatim>\<open>length\<close> of the chosen operator, and the number \<^verbatim>\<open>u\<close> compared
  with the Boltzmann probability. \<open>valid_draw\<close> states the ranges the library guarantees.
\<close>

record draw =
  d_r :: rat
  d_a :: nat
  d_b :: nat
  d_length :: nat
  d_u :: rat

definition valid_draw :: "nat \<Rightarrow> draw \<Rightarrow> bool" where
  "valid_draw n d \<longleftrightarrow>
     (if d_r d < 1 / 2 then d_a d < n \<and> d_b d < n \<and> d_a d \<noteq> d_b d
      else if d_r d < 85 / 100 then d_a d < n \<and> d_b d < n - 1
      else d_a d < n \<and> 2 \<le> d_length d \<and> d_length d \<le> min 8 n)"

text \<open>\<^verbatim>\<open>nbr[a], nbr[b] = nbr[b], nbr[a]\<close>, for indices within the list.\<close>

definition swap :: "'a list \<Rightarrow> nat \<Rightarrow> nat \<Rightarrow> 'a list" where
  "swap xs a b = xs[a := xs ! b, b := xs ! a]"

text \<open>\<^verbatim>\<open>item = nbr.pop(a); nbr.insert(b, item)\<close>, for \<open>a\<close> within the list.\<close>

definition relocate :: "'a list \<Rightarrow> nat \<Rightarrow> nat \<Rightarrow> 'a list" where
  "relocate xs a b =
     (let item = xs ! a; ys = take a xs @ drop (Suc a) xs
      in take b ys @ item # drop b ys)"

text \<open>\<^verbatim>\<open>nbr[a:b] = nbr[a:b][::-1]\<close>.\<close>

definition reverse_slice :: "'a list \<Rightarrow> nat \<Rightarrow> nat \<Rightarrow> 'a list" where
  "reverse_slice xs a b = take a xs @ rev (take (b - a) (drop a xs)) @ drop b xs"

text \<open>
  The operator chosen by \<^verbatim>\<open>r\<close>. \<^verbatim>\<open>random.sample(range(n), 2)\<close>, \<^verbatim>\<open>random.randrange(n)\<close>,
  \<^verbatim>\<open>random.randrange(n - 1)\<close> and \<^verbatim>\<open>random.randint(2, min(8, n))\<close> raise ValueError on an empty
  range.
\<close>

definition perturb :: "draw \<Rightarrow> 'a list \<Rightarrow> 'a list result" where
  "perturb d current =
     (let n = length current in
      if d_r d < 1 / 2 then
        (if n < 2 then Inl ValueError else Inr (swap current (d_a d) (d_b d)))
      else if d_r d < 85 / 100 then
        (if n = 0 then Inl ValueError
         else if n - 1 = 0 then Inl ValueError
         else Inr (relocate current (d_a d) (d_b d)))
      else
        (if n = 0 then Inl ValueError
         else if min 8 n < 2 then Inl ValueError
         else Inr (reverse_slice current (d_a d) (min (d_a d + d_length d) n))))"

text \<open>
  The per-key count invariant of a priority ordering: each unit has \<open>maxLevel - 1\<close> steps when
  unlocked by default and \<open>maxLevel\<close> otherwise; each boost has \<open>maxLevel\<close> steps.
\<close>

definition key_count :: "step list \<Rightarrow> key \<Rightarrow> nat" where
  "key_count xs k = length (filter (\<lambda>st. key_of st = k) xs)"

definition valid_ordering :: "config \<Rightarrow> step list \<Rightarrow> bool" where
  "valid_ordering cfg xs \<longleftrightarrow>
     (\<forall>c \<in> set (creatures cfg).
        key_count xs (''creature'', c_id c) =
          nat (if c_unlockedByDefault c then c_maxLevel c - 1 else c_maxLevel c)) \<and>
     (\<forall>b \<in> set (boosts cfg). key_count xs (''boost'', b_id b) = nat (b_maxLevel b))"

subsection \<open>Hill climbing\<close>

text \<open>The pairs \<^verbatim>\<open>for i in range(n): for j in range(i + 1, n)\<close>, in the order of the loops.\<close>

definition swap_pairs :: "nat \<Rightarrow> (nat \<times> nat) list" where
  "swap_pairs n = concat (map (\<lambda>i. map (\<lambda>j. (i, j)) [i + 1..<n]) [0..<n])"

text \<open>
  The scan of \<^verbatim>\<open>hill_climb\<close>, threading \<^verbatim>\<open>best_score\<close> and \<^verbatim>\<open>(best_i, best_j)\<close>; the initial
  \<^verbatim>\<open>best_i = best_j = -1\<close> is \<open>None\<close>.
\<close>

fun climb_scan ::
  "config \<Rightarrow> step list \<Rightarrow> (nat \<times> nat) list \<Rightarrow> rat \<times> (nat \<times> nat) option \<Rightarrow>
   (rat \<times> (nat \<times> nat) option) result" where
  "climb_scan cfg priority [] best = Inr best"
| "climb_scan cfg priority (ij # rest) best =
     rbind (simulate cfg (swap priority (fst ij) (snd ij))) (\<lambda>sc.
       if sc > fst best then climb_scan cfg priority rest (sc, Some ij)
       else climb_scan cfg priority rest best)"

definition hill_climb :: "config \<Rightarrow> step list \<Rightarrow> (step list \<times> rat \<times> bool) result" where
  "hill_climb cfg priority =
     rbind (simulate cfg priority) (\<lambda>base_score.
     rbind (climb_scan cfg priority (swap_pairs (length priority)) (base_score, None)) (\<lambda>best.
       case snd best of
         Some ij \<Rightarrow> Inr (swap priority (fst ij) (snd ij), fst best, True)
       | None \<Rightarrow> Inr (priority, base_score, False)))"

text \<open>
  \<^verbatim>\<open>optimize\<close> holds \<^verbatim>\<open>global_best = None\<close> until a restart has set it; \<^verbatim>\<open>len(None)\<close> in
  \<^verbatim>\<open>hill_climb\<close> raises TypeError.
\<close>

definition hill_climb_opt :: "config \<Rightarrow> step list option \<Rightarrow> (step list \<times> rat \<times> bool) result" where
  "hill_climb_opt cfg global_best =
     (case global_best of None \<Rightarrow> Inl TypeError | Some priority \<Rightarrow> hill_climb cfg priority)"

text \<open>The loop \<^verbatim>\<open>for p in range(hill_climb_passes)\<close> with its \<^verbatim>\<open>break\<close>.\<close>

fun climb_passes ::
  "config \<Rightarrow> nat \<Rightarrow> step list option \<times> rat \<Rightarrow> (step list option \<times> rat) result" where
  "climb_passes cfg 0 gb = Inr gb"
| "climb_passes cfg (Suc p) gb =
     rbind (hill_climb_opt cfg (fst gb)) (\<lambda>r.
       if \<not> snd (snd r) then Inr (Some (fst r), fst (snd r))
       else climb_passes cfg p (Some (fst r), fst (snd r)))"

subsection \<open>Simulated annealing\<close>

text \<open>
  The state of the annealing loop. The temperature is a real number: the schedule uses a
  fractional power and the acceptance test an exponential.
\<close>

record sa_state =
  sa_current :: "step list"
  sa_current_score :: rat
  sa_best :: "step list"
  sa_best_score :: rat
  sa_temp :: real

definition accepts :: "sa_state \<Rightarrow> rat \<Rightarrow> rat \<Rightarrow> bool" where
  "accepts st nbr_score u =
     (let delta = nbr_score - sa_current_score st in
      delta > 0 \<or>
      of_rat u < exp (of_rat delta / (sa_temp st * max (of_rat (sa_current_score st)) 1000000)))"

definition sa_step :: "config \<Rightarrow> real \<Rightarrow> draw \<Rightarrow> sa_state \<Rightarrow> sa_state result" where
  "sa_step cfg cooling d st =
     rbind (perturb d (sa_current st)) (\<lambda>nbr.
     rbind (simulate cfg nbr) (\<lambda>nbr_score.
       let st1 =
         (if accepts st nbr_score (d_u d) then
            (let st2 = st\<lparr>sa_current := nbr, sa_current_score := nbr_score\<rparr>
             in if nbr_score > sa_best_score st2
                then st2\<lparr>sa_best := nbr, sa_best_score := nbr_score\<rparr> else st2)
          else st)
       in Inr (st1\<lparr>sa_temp := sa_temp st1 * cooling\<rparr>)))"

text \<open>\<^verbatim>\<open>for i in range(n_iter)\<close>: the first argument counts the iterations left.\<close>

fun sa_loop :: "config \<Rightarrow> real \<Rightarrow> (nat \<Rightarrow> draw) \<Rightarrow> nat \<Rightarrow> nat \<Rightarrow> sa_state \<Rightarrow> sa_state result" where
  "sa_loop cfg cooling rnd 0 i st = Inr st"
| "sa_loop cfg cooling rnd (Suc k) i st =
     rbind (sa_step cfg cooling (rnd i) st) (sa_loop cfg cooling rnd k (Suc i))"

text \<open>
  \<open>shuffled\<close> is the template after \<^verbatim>\<open>random.shuffle\<close>, \<open>rnd i\<close> the draw of iteration \<open>i\<close>.
  Printing (\<^verbatim>\<open>verbose\<close>) is left out.
\<close>

definition simulated_annealing ::
  "config \<Rightarrow> int \<Rightarrow> step list \<Rightarrow> (nat \<Rightarrow> draw) \<Rightarrow> (step list \<times> rat) result" where
  "simulated_annealing cfg n_iter shuffled rnd =
     rbind (simulate cfg shuffled) (\<lambda>current_score.
       let T_start = 30 / 100;
           T_end = 1 / 10000;
           cooling = (T_end / T_start) powr (1 / real_of_int (max (n_iter - 1) 1))
       in rbind (sa_loop cfg cooling rnd (nat n_iter) 0
                   \<lparr>sa_current = shuffled, sa_current_score = current_score,
                    sa_best = shuffled, sa_best_score = current_score, sa_temp = T_start\<rparr>)
            (\<lambda>st. Inr (sa_best st, sa_best_score st)))"

subsection \<open>The pipeline\<close>

text \<open>
  \<^verbatim>\<open>for r in range(n_restarts)\<close>: \<open>rand r\<close> is what the random source gives restart \<open>r\<close>, its
  shuffled template and its draws.
\<close>

fun restart_loop ::
  "config \<Rightarrow> int \<Rightarrow> (nat \<Rightarrow> step list \<times> (nat \<Rightarrow> draw)) \<Rightarrow> nat \<Rightarrow> nat \<Rightarrow>
   step list option \<times> rat \<Rightarrow> (step list option \<times> rat) result" where
  "restart_loop cfg n_iter rand 0 r gb = Inr gb"
| "restart_loop cfg n_iter rand (Suc k) r gb =
     rbind (simulated_annealing cfg n_iter (fst (rand r)) (snd (rand r))) (\<lambda>res.
       restart_loop cfg n_iter rand k (Suc r)
         (if snd res > snd gb then (Some (fst res), snd res) else gb))"

definition optimize ::
  "config \<Rightarrow> int \<Rightarrow> int \<Rightarrow> int \<Rightarrow> (nat \<Rightarrow> step list \<times> (nat \<Rightarrow> draw)) \<Rightarrow>
   (step list option \<times> rat) result" where
  "optimize cfg n_iter n_restarts hill_climb_passes rand =
     rbind (restart_loop cfg n_iter rand (nat n_restarts) 0 (None, 0))
       (climb_passes cfg (nat hill_climb_passes))"

text \<open>
  A small configuration for concrete runs: three decision ticks, one unit whose level-2
  damage is 100 times its level-1 damage, one damage boost that doubles damage.
\<close>

definition tiny_config :: config where
  "tiny_config = \<lparr> duration = 180000, resource_ids = [''gold''],
     creatures = [\<lparr> c_id = ''imp'', c_name = ''Imp'', c_unlockedByDefault = True,
        c_produces = ''gold'', c_spawnTime = 1000, c_maxLevel = 2,
        c_productionByLevel = [10, 10], c_damageByLevel = [1, 100],
        c_unlockCost = None, c_upgradeCosts = [[(''gold'', 100)]] \<rparr>],
     boosts = [\<lparr> b_id = ''fury'', b_name = ''Fury'', b_type = ''damage'', b_resource = None,
        b_maxLevel = 1, b_bonusByLevel = [1], b_costs = [[(''gold'', 100)]] \<rparr>] \<rparr>"

definition boost_first :: "step list" where
  "boost_first = [(''boost'', ''fury'', ''Fury''), (''creature'', ''imp'', ''Imp'')]"

definition imp_first :: "step list" where
  "imp_first = [(''creature'', ''imp'', ''Imp''), (''boost'', ''fury'', ''Fury'')]"

lemma tiny_scores:
  "simulate tiny_config boost_first = Inr 12180" "simulate tiny_config imp_first = Inr 18060"
  by code_simp+

lemma tiny_climb:
  "hill_climb tiny_config boost_first = Inr (imp_first, 18060, True)"
  "hill_climb tiny_config imp_first = Inr (imp_first, 18060, False)"
  by code_simp+

lemma mset_swap_list:
  "a < length xs \<Longrightarrow> b < length xs \<Longrightarrow> mset (swap xs a b) = mset xs"
  unfolding swap_def by (rule mset_swap)

lemma mset_relocate:
  assumes "a < length xs"
  shows "mset (relocate xs a b) = mset xs"
proof -
  let ?ys = "take a xs @ drop (Suc a) xs"
  have "mset (relocate xs a b) = mset (take b ?ys) + mset (drop b ?ys) + {#xs ! a#}"
    by (simp add: relocate_def Let_def)
  also have "mset (take b ?ys) + mset (drop b ?ys) = mset ?ys"
    by (metis append_take_drop_id mset_append)
  also have "mset ?ys + {#xs ! a#} = mset (take a xs @ xs ! a # drop (Suc a) xs)" by simp
  also from assms have "take a xs @ xs ! a # drop (Suc a) xs = xs" by (rule id_take_nth_drop [symmetric])
  finally show ?thesis .
qed

lemma mset_reverse_slice:
  assumes "a \<le> b"
  shows "mset (reverse_slice xs a b) = mset xs"
proof -
  from assms have d: "drop b xs = drop (b - a) (drop a xs)" by simp
  have "mset (reverse_slice xs a b) =
      mset (take a xs) + (mset (take (b - a) (drop a xs)) + mset (drop (b - a) (drop a xs)))"
    by (simp add: reverse_slice_def d)
  also have "mset (take (b - a) (drop a xs)) + mset (drop (b - a) (drop a xs)) = mset (drop a xs)"
    by (metis append_take_drop_id mset_append)
  also have "mset (take a xs) + mset (drop a xs) = mset xs"
    by (metis append_take_drop_id mset_append)
  finally show ?thesis .
qed

lemma perturb_mset:
  assumes v: "valid_draw (length xs) d" and p: "perturb d xs = Inr ys"
  shows "mset ys = mset xs"
proof (cases "d_r d < 1 / 2")
  case True
  with v have "d_a d < length xs" and "d_b d < length xs" by (simp_all add: valid_draw_def)
  moreover from p True have "ys = swap xs (d_a d) (d_b d)"
    by (simp add: perturb_def Let_def split: if_splits)
  ultimately show ?thesis by (simp add: mset_swap_list)
next
  case False
  show ?thesis
  proof (cases "d_r d < 85 / 100")
    case True
    with v False have "d_a d < length xs" by (simp add: valid_draw_def)
    moreover from p False True have "ys = relocate xs (d_a d) (d_b d)"
      by (simp add: perturb_def Let_def split: if_splits)
    ultimately show ?thesis by (simp add: mset_relocate)
  next
    case nr: False
    from p False nr have "ys = reverse_slice xs (d_a d) (min (d_a d + d_length d) (length xs))"
      by (simp add: perturb_def Let_def split: if_splits)
    moreover from v False nr have "d_a d \<le> min (d_a d + d_length d) (length xs)"
      by (simp add: valid_draw_def)
    ultimately show ?thesis by (simp add: mset_reverse_slice)
  qed
qed

lemma perturb_returns:
  assumes "2 \<le> length xs"
  shows "\<exists>ys. perturb d xs = Inr ys"
proof -
  from assms have f: "\<not> length xs < 2" "length xs \<noteq> 0" "length xs - 1 \<noteq> 0"
    "\<not> min 8 (length xs) < 2" by auto
  show ?thesis
    unfolding perturb_def Let_def
    by (cases "d_r d < 1 / 2"; cases "d_r d < 85 / 100") (simp_all only: f if_True if_False, simp_all)
qed

lemma key_count_mset:
  assumes "mset ys = mset xs"
  shows "key_count ys k = key_count xs k"
proof -
  have "key_count ys k = size (filter_mset (\<lambda>st. key_of st = k) (mset ys))"
    by (simp add: key_count_def flip: mset_filter)
  also have "\<dots> = size (filter_mset (\<lambda>st. key_of st = k) (mset xs))" by (simp add: assms)
  also have "\<dots> = key_count xs k" by (simp add: key_count_def flip: mset_filter)
  finally show ?thesis .
qed

lemma valid_ordering_mset:
  assumes "mset ys = mset xs" and "valid_ordering cfg xs"
  shows "valid_ordering cfg ys"
  using assms(2) by (simp add: valid_ordering_def key_count_mset [OF assms(1)])

text \<open>
  C8. Each perturbation operator of the annealing loop (swap of two distinct positions,
  relocation of one element, reversal of a contiguous slice), applied with indices in the
  ranges the random source guarantees to an ordering of length at least 2 that satisfies the
  per-key count invariant, returns an ordering of the same length with the same elements
  (none added, removed or retyped), which satisfies the invariant again.
\<close>

theorem perturb_preserves_ordering:
  assumes "valid_ordering cfg xs" and "2 \<le> length xs" and "valid_draw (length xs) d"
  shows "\<exists>ys. perturb d xs = Inr ys \<and> length ys = length xs \<and> mset ys = mset xs \<and>
           valid_ordering cfg ys"
proof -
  from perturb_returns [OF assms(2)] obtain ys where ys: "perturb d xs = Inr ys" by blast
  from perturb_mset [OF assms(3) ys] have m: "mset ys = mset xs" .
  then have "length ys = length xs" by (rule mset_eq_length)
  with ys m valid_ordering_mset [OF m assms(1)] show ?thesis by blast
qed

lemma template_valid: "valid_ordering EVENT_CONFIG (build_template EVENT_CONFIG)"
  by code_simp

lemma template_length: "length (build_template EVENT_CONFIG) = 81"
  by code_simp

definition swap_draw :: draw where
  "swap_draw = \<lparr>d_r = 1 / 4, d_a = 0, d_b = 80, d_length = 0, d_u = 0\<rparr>"

definition relocate_draw :: draw where
  "relocate_draw = \<lparr>d_r = 6 / 10, d_a = 80, d_b = 0, d_length = 0, d_u = 0\<rparr>"

definition reverse_draw :: draw where
  "reverse_draw = \<lparr>d_r = 9 / 10, d_a = 75, d_b = 0, d_length = 8, d_u = 0\<rparr>"

lemma demo_draws_valid:
  "valid_draw 81 swap_draw" "valid_draw 81 relocate_draw" "valid_draw 81 reverse_draw"
  by (simp_all add: valid_draw_def swap_draw_def relocate_draw_def reverse_draw_def)

lemma demo_perturbed_heads:
  "map_sum id hd (perturb swap_draw (build_template EVENT_CONFIG)) =
     Inr (''boost'', ''champion-damage'', ''Champion Damage'')"
  "map_sum id hd (perturb relocate_draw (build_template EVENT_CONFIG)) =
     Inr (''boost'', ''champion-damage'', ''Champion Damage'')"
  "map_sum id last (perturb reverse_draw (build_template EVENT_CONFIG)) =
     Inr (''boost'', ''champion-speed'', ''Champion Speed'')"
  by code_simp+

theorem perturb_preserves_ordering_witness:
  "valid_ordering EVENT_CONFIG (build_template EVENT_CONFIG) \<and>
   length (build_template EVENT_CONFIG) = 81 \<and>
   valid_draw 81 swap_draw \<and> valid_draw 81 relocate_draw \<and> valid_draw 81 reverse_draw \<and>
   (\<exists>ys. perturb swap_draw (build_template EVENT_CONFIG) = Inr ys \<and>
         hd ys = (''boost'', ''champion-damage'', ''Champion Damage'') \<and> length ys = 81 \<and>
         valid_ordering EVENT_CONFIG ys) \<and>
   (\<exists>ys. perturb relocate_draw (build_template EVENT_CONFIG) = Inr ys \<and>
         hd ys = (''boost'', ''champion-damage'', ''Champion Damage'') \<and> length ys = 81 \<and>
         valid_ordering EVENT_CONFIG ys) \<and>
   (\<exists>ys. perturb reverse_draw (build_template EVENT_CONFIG) = Inr ys \<and>
         last ys = (''boost'', ''champion-speed'', ''Champion Speed'') \<and> length ys = 81 \<and>
         valid_ordering EVENT_CONFIG ys)"
proof -
  have l: "2 \<le> length (build_template EVENT_CONFIG)" by (simp add: template_length)
  have v: "valid_draw (length (build_template EVENT_CONFIG)) swap_draw"
    "valid_draw (length (build_template EVENT_CONFIG)) relocate_draw"
    "valid_draw (length (build_template EVENT_CONFIG)) reverse_draw"
    by (simp_all add: template_length demo_draws_valid)
  from perturb_preserves_ordering [OF template_valid l v(1)] demo_perturbed_heads(1)
  have a: "\<exists>ys. perturb swap_draw (build_template EVENT_CONFIG) = Inr ys \<and>
         hd ys = (''boost'', ''champion-damage'', ''Champion Damage'') \<and> length ys = 81 \<and>
         valid_ordering EVENT_CONFIG ys"
    by (auto simp: template_length)
  from perturb_preserves_ordering [OF template_valid l v(2)] demo_perturbed_heads(2)
  have b: "\<exists>ys. perturb relocate_draw (build_template EVENT_CONFIG) = Inr ys \<and>
         hd ys = (''boost'', ''champion-damage'', ''Champion Damage'') \<and> length ys = 81 \<and>
         valid_ordering EVENT_CONFIG ys"
    by (auto simp: template_length)
  from perturb_preserves_ordering [OF template_valid l v(3)] demo_perturbed_heads(3)
  have c: "\<exists>ys. perturb reverse_draw (build_template EVENT_CONFIG) = Inr ys \<and>
         last ys = (''boost'', ''champion-speed'', ''Champion Speed'') \<and> length ys = 81 \<and>
         valid_ordering EVENT_CONFIG ys"
    by (auto simp: template_length)
  from a b c template_valid template_length demo_draws_valid show ?thesis by blast
qed

lemma swap_pairs_set: "set (swap_pairs n) = {(i, j). i < j \<and> j < n}"
proof (intro set_eqI iffI)
  fix ij assume "ij \<in> set (swap_pairs n)"
  then show "ij \<in> {(i, j). i < j \<and> j < n}" by (auto simp: swap_pairs_def)
next
  fix ij :: "nat \<times> nat" assume a: "ij \<in> {(i, j). i < j \<and> j < n}"
  obtain i j where ij: "ij = (i, j)" by (cases ij)
  with a have "i < j" and "j < n" by simp_all
  then have "i \<in> set [0..<n]" and "(i, j) \<in> set (map (\<lambda>j. (i, j)) [i + 1..<n])" by auto
  then show "ij \<in> set (swap_pairs n)" unfolding swap_pairs_def ij set_concat by force
qed

lemma sum_below: "(\<Sum>i = 0..<n. n - Suc i) = n * (n - 1) div 2"
proof (induction n)
  case 0
  then show ?case by simp
next
  case (Suc n)
  have "(\<Sum>i = 0..<Suc n. Suc n - Suc i) = (\<Sum>i = 0..<n. Suc (n - Suc i))"
    by (simp add: Suc_diff_Suc)
  also have "\<dots> = (\<Sum>i = 0..<n. n - Suc i) + n"
    using sum.distrib [of "\<lambda>i. n - Suc i" "\<lambda>i. 1" "{0..<n}"] by simp
  also have "\<dots> = n * (n - 1) div 2 + n" by (simp add: Suc.IH)
  also have "\<dots> = Suc n * (Suc n - 1) div 2"
  proof (cases n)
    case 0
    then show ?thesis by simp
  next
    case (Suc m)
    have "even (Suc m * m)" by simp
    then obtain q where q: "Suc m * m = 2 * q" by (elim evenE)
    have "Suc (Suc m) * Suc m = Suc m * m + 2 * Suc m" by simp
    with q have "Suc (Suc m) * Suc m div 2 = q + Suc m" by simp
    with q Suc show ?thesis by simp
  qed
  finally show ?case .
qed

lemma swap_pairs_length: "length (swap_pairs n) = n * (n - 1) div 2"
proof -
  have "length (swap_pairs n) = (\<Sum>i\<leftarrow>[0..<n]. n - Suc i)"
    by (simp add: swap_pairs_def length_concat comp_def)
  also have "\<dots> = (\<Sum>i = 0..<n. n - Suc i)" by (simp add: interv_sum_list_conv_sum_set_nat)
  finally show ?thesis by (simp add: sum_below)
qed

lemma climb_scan_best:
  "climb_scan cfg p pairs (b0, k0) = Inr (b, k) \<Longrightarrow>
     b0 \<le> b \<and>
     (\<forall>ij \<in> set pairs. \<exists>sc. simulate cfg (swap p (fst ij) (snd ij)) = Inr sc \<and> sc \<le> b) \<and>
     ((b = b0 \<and> k = k0) \<or>
      (\<exists>ij \<in> set pairs. k = Some ij \<and> simulate cfg (swap p (fst ij) (snd ij)) = Inr b \<and> b0 < b))"
proof (induction pairs arbitrary: b0 k0)
  case Nil
  then show ?case by simp
next
  case (Cons ij rest)
  from Cons.prems obtain sc where sc: "simulate cfg (swap p (fst ij) (snd ij)) = Inr sc"
    by (cases "simulate cfg (swap p (fst ij) (snd ij))") simp_all
  show ?case
  proof (cases "sc > b0")
    case True
    with Cons.prems sc have rec: "climb_scan cfg p rest (sc, Some ij) = Inr (b, k)" by simp
    note ih = Cons.IH [OF rec]
    from ih True have le: "b0 \<le> b" and lt: "b0 < b" by simp_all
    from ih sc have all: "\<forall>x \<in> set (ij # rest). \<exists>sc. simulate cfg (swap p (fst x) (snd x)) = Inr sc \<and> sc \<le> b"
      by simp
    from ih have "(b = sc \<and> k = Some ij) \<or>
      (\<exists>x \<in> set rest. k = Some x \<and> simulate cfg (swap p (fst x) (snd x)) = Inr b \<and> sc < b)" by simp
    then have "\<exists>x \<in> set (ij # rest). k = Some x \<and> simulate cfg (swap p (fst x) (snd x)) = Inr b \<and> b0 < b"
    proof
      assume "b = sc \<and> k = Some ij"
      with sc lt show ?thesis by simp
    next
      assume "\<exists>x \<in> set rest. k = Some x \<and> simulate cfg (swap p (fst x) (snd x)) = Inr b \<and> sc < b"
      with lt show ?thesis by auto
    qed
    with le all show ?thesis by blast
  next
    case False
    with Cons.prems sc have rec: "climb_scan cfg p rest (b0, k0) = Inr (b, k)" by simp
    note ih = Cons.IH [OF rec]
    from ih False sc have all: "\<forall>x \<in> set (ij # rest). \<exists>sc. simulate cfg (swap p (fst x) (snd x)) = Inr sc \<and> sc \<le> b"
      by auto
    from ih have "(b = b0 \<and> k = k0) \<or>
      (\<exists>x \<in> set (ij # rest). k = Some x \<and> simulate cfg (swap p (fst x) (snd x)) = Inr b \<and> b0 < b)"
      by auto
    with ih all show ?thesis by blast
  qed
qed

lemma hill_climb_result:
  assumes "hill_climb cfg priority = Inr (res, score, improved)"
  shows "\<exists>base. simulate cfg priority = Inr base \<and> base \<le> score \<and>
     (\<forall>ij \<in> set (swap_pairs (length priority)).
        \<exists>sc. simulate cfg (swap priority (fst ij) (snd ij)) = Inr sc \<and> sc \<le> score) \<and>
     (if improved
      then base < score \<and>
           (\<exists>ij \<in> set (swap_pairs (length priority)).
              res = swap priority (fst ij) (snd ij) \<and> simulate cfg res = Inr score)
      else res = priority \<and> score = base)"
proof -
  from assms obtain base where base: "simulate cfg priority = Inr base"
    by (cases "simulate cfg priority") (simp_all add: hill_climb_def)
  from assms base obtain best where
    scan: "climb_scan cfg priority (swap_pairs (length priority)) (base, None) = Inr best"
    by (cases "climb_scan cfg priority (swap_pairs (length priority)) (base, None)")
      (simp_all add: hill_climb_def)
  obtain b k where bk: "best = (b, k)" by (cases best)
  note cs = climb_scan_best [OF scan [unfolded bk]]
  show ?thesis
  proof (cases k)
    case None
    with assms base scan bk have r: "res = priority" "score = base" "\<not> improved"
      by (simp_all add: hill_climb_def)
    from cs None have "b = base" by auto
    with cs r base show ?thesis by auto
  next
    case (Some ij)
    with assms base scan bk have r: "res = swap priority (fst ij) (snd ij)" "score = b" "improved"
      by (simp_all add: hill_climb_def)
    from cs Some have "ij \<in> set (swap_pairs (length priority))"
      and "simulate cfg (swap priority (fst ij) (snd ij)) = Inr b" and "base < b" by auto
    with cs r base show ?thesis by auto
  qed
qed

lemma climb_passes_stop:
  assumes "hill_climb cfg priority = Inr (res, score, False)"
  shows "climb_passes cfg (Suc p) (Some priority, g) = Inr (Some res, score)"
  using assms by (simp add: hill_climb_opt_def)

lemma climb_passes_monotone:
  "climb_passes cfg p (Some xs, g) = Inr (gb', sc) \<Longrightarrow> simulate cfg xs = Inr g \<Longrightarrow>
     g \<le> sc \<and> (\<exists>ys. gb' = Some ys \<and> simulate cfg ys = Inr sc)"
proof (induction p arbitrary: xs g)
  case 0
  then show ?case by auto
next
  case (Suc p)
  from Suc.prems(1) obtain r where r: "hill_climb cfg xs = Inr r"
    by (cases "hill_climb cfg xs") (simp_all add: hill_climb_opt_def)
  obtain res score improved where r3: "r = (res, score, improved)" by (cases r) auto
  from hill_climb_result [OF r [unfolded r3]] Suc.prems(2)
  have le: "g \<le> score" and sim: "simulate cfg res = Inr score"
    by (auto split: if_splits)
  show ?case
  proof (cases improved)
    case False
    with Suc.prems(1) r r3 have "gb' = Some res" "sc = score" by (simp_all add: hill_climb_opt_def)
    with le sim show ?thesis by simp
  next
    case True
    with Suc.prems(1) r r3 have "climb_passes cfg p (Some res, score) = Inr (gb', sc)"
      by (simp add: hill_climb_opt_def)
    from Suc.IH [OF this sim] le show ?thesis by auto
  qed
qed

text \<open>
  C6. One pass of \<open>hill_climb\<close> over an ordering of length n that returns has evaluated the
  score of all n(n-1)/2 swaps of positions i < j; when some swap improves on the score of the
  ordering, the result is the ordering with one swap applied, a swap of highest score, and
  the pass reports improved; otherwise the ordering is returned unchanged with its own score
  and the pass reports converged. The returned score is never below the score of the input,
  so scores do not decrease over the passes of the caller's loop, which stops at the first
  converged pass.
\<close>

theorem hill_climb_spec:
  assumes "hill_climb cfg priority = Inr (res, score, improved)"
  shows "length (swap_pairs (length priority)) = length priority * (length priority - 1) div 2 \<and>
     set (swap_pairs (length priority)) = {(i, j). i < j \<and> j < length priority} \<and>
     (\<exists>base. simulate cfg priority = Inr base \<and> base \<le> score \<and>
        (\<forall>ij \<in> set (swap_pairs (length priority)).
           \<exists>sc. simulate cfg (swap priority (fst ij) (snd ij)) = Inr sc \<and> sc \<le> score) \<and>
        (if improved
         then base < score \<and>
              (\<exists>ij \<in> set (swap_pairs (length priority)).
                 res = swap priority (fst ij) (snd ij) \<and> simulate cfg res = Inr score)
         else res = priority \<and> score = base)) \<and>
     (\<not> improved \<longrightarrow> (\<forall>p g. climb_passes cfg (Suc p) (Some priority, g) = Inr (Some res, score))) \<and>
     (\<forall>p g gb' sc. climb_passes cfg p (Some priority, g) = Inr (gb', sc) \<and>
          simulate cfg priority = Inr g \<longrightarrow> g \<le> sc \<and> (\<exists>ys. gb' = Some ys \<and> simulate cfg ys = Inr sc))"
proof -
  have stop: "\<not> improved \<longrightarrow> (\<forall>p g. climb_passes cfg (Suc p) (Some priority, g) = Inr (Some res, score))"
    using assms climb_passes_stop [of cfg priority res score] by (cases improved) auto
  have mono: "\<forall>p g gb' sc. climb_passes cfg p (Some priority, g) = Inr (gb', sc) \<and>
          simulate cfg priority = Inr g \<longrightarrow> g \<le> sc \<and> (\<exists>ys. gb' = Some ys \<and> simulate cfg ys = Inr sc)"
    using climb_passes_monotone by blast
  show ?thesis
    by (intro conjI swap_pairs_length swap_pairs_set hill_climb_result [OF assms] stop mono)
qed

lemma tiny_passes:
  "climb_passes tiny_config 3 (Some boost_first, 12180) = Inr (Some imp_first, 18060)"
  by (simp add: numeral_3_eq_3 hill_climb_opt_def tiny_climb)

theorem hill_climb_spec_witness:
  "hill_climb tiny_config boost_first = Inr (imp_first, 18060, True) \<and>
   hill_climb tiny_config imp_first = Inr (imp_first, 18060, False) \<and>
   simulate tiny_config boost_first = Inr 12180 \<and>
   simulate tiny_config imp_first = Inr 18060 \<and>
   length (swap_pairs (length boost_first)) = 1 \<and>
   climb_passes tiny_config 3 (Some boost_first, 12180) = Inr (Some imp_first, 18060) \<and>
   climb_passes tiny_config 3 (Some imp_first, 18060) = Inr (Some imp_first, 18060)"
proof -
  note a = hill_climb_spec [OF tiny_climb(1), THEN conjunct1]
  note b = hill_climb_spec [OF tiny_climb(2), THEN conjunct2, THEN conjunct2, THEN conjunct2,
    THEN conjunct1]
  from a have l: "length (swap_pairs (length boost_first)) = 1" by (simp add: boost_first_def)
  from b have "\<forall>p g. climb_passes tiny_config (Suc p) (Some imp_first, g) = Inr (Some imp_first, 18060)"
    by blast
  then have "climb_passes tiny_config (Suc (Suc (Suc 0))) (Some imp_first, 18060) =
      Inr (Some imp_first, 18060)"
    by blast
  then have c: "climb_passes tiny_config 3 (Some imp_first, 18060) = Inr (Some imp_first, 18060)"
    by (simp only: numeral_3_eq_3)
  show ?thesis
    by (intro conjI tiny_climb tiny_scores l tiny_passes c)
qed

end
